theory Spec2Isabelle
  imports Main "HOL-Library.AList"
begin

section \<open>Python values, dictionaries and exceptions\<close>

text \<open>
  The tap handles decoded JSON bodies. A decoded value is \<open>None\<close>, a bool, an int, a
  string, a list or a dict with string keys; a dict is an association list in insertion
  order (Python dicts iterate in insertion order, and a store to an existing key keeps
  the key's position, which is what \<open>AList.update\<close> does). JSON numbers with a fraction
  are left out of the value type: no definition below computes with them.
\<close>

datatype json =
    JNull
  | JBool bool
  | JInt int
  | JStr string
  | JList "json list"
  | JObj "(string \<times> json) list"

type_synonym pydict = "(string \<times> json) list"

text \<open>
  An exception is its class and the text \<open>str(e)\<close> gives. The texts of the built-in
  exceptions are abbreviated; the code inspects the text of an exception in two places
  only, both for what the HTTP client raised.
\<close>

datatype exn_class =
    KeyError | IndexError | TypeError | AttributeError | ValueError
  | OverflowError | OSError | StopIteration | ReError | ClientError

datatype py_error = Raise exn_class string

fun str_of_error :: "py_error \<Rightarrow> string" where
  "str_of_error (Raise c m) = m"

text \<open>Truth value of a decoded value, as \<open>if x:\<close> and \<open>x or y\<close> take it.\<close>

fun truthy :: "json \<Rightarrow> bool" where
  "truthy JNull = False"
| "truthy (JBool b) = b"
| "truthy (JInt i) = (i \<noteq> 0)"
| "truthy (JStr s) = (s \<noteq> [])"
| "truthy (JList xs) = (xs \<noteq> [])"
| "truthy (JObj kvs) = (kvs \<noteq> [])"

text \<open>\<open>d.update(e)\<close>: the items of \<open>e\<close> are stored into \<open>d\<close> in the order of \<open>e\<close>.\<close>

definition dict_update :: "pydict \<Rightarrow> pydict \<Rightarrow> pydict" where
  "dict_update d e = fold (\<lambda>(k, v). AList.update k v) e d"

section \<open>Sequencing of computations that may raise\<close>

text \<open>\<open>seq m f\<close> runs \<open>f\<close> on the value of \<open>m\<close>, unless \<open>m\<close> raised.\<close>

fun seq :: "'e + 'a \<Rightarrow> ('a \<Rightarrow> 'e + 'b) \<Rightarrow> 'e + 'b" where
  "seq (Inl e) f = Inl e"
| "seq (Inr x) f = f x"

section \<open>Field chunking for the analytics requests\<close>

text \<open>
  \<open>range(0, stop, step)\<close> for a positive step, and \<open>split_into_chunks\<close>, whose slices
  \<open>fields[x:x+chunk_length]\<close> are \<open>take chunk_length (drop x fields)\<close>. A zero step makes
  \<open>range\<close> raise ValueError; a negative step gives an empty range.
\<close>

definition py_range :: "nat \<Rightarrow> nat \<Rightarrow> nat list" where
  "py_range stop step = map (\<lambda>i. i * step) [0 ..< (stop + step - 1) div step]"

definition split_into_chunks :: "'a list \<Rightarrow> int \<Rightarrow> py_error + 'a list list" where
  "split_into_chunks fields chunk_length =
     (if chunk_length = 0 then Inl (Raise ValueError ''range() arg 3 must not be zero'')
      else if chunk_length < 0 then Inr []
      else Inr (map (\<lambda>x. take (nat chunk_length) (drop x fields))
                  (py_range (length fields) (nat chunk_length))))"

definition FIELDS_UNAVAILABLE_FOR_AD_ANALYTICS :: "string list" where
  "FIELDS_UNAVAILABLE_FOR_AD_ANALYTICS =
     [''campaign'', ''campaignId'', ''startAt'', ''endAt'', ''creative'', ''creativeId'',
      ''pivot'', ''pivotValue'', ''pivotValueName'']"

definition MAX_CHUNK_LENGTH :: int where
  "MAX_CHUNK_LENGTH = 18"

text \<open>
  The field list of \<open>sync_ad_analytics\<close>: the selected fields in camel case, without the
  fields the endpoint does not accept. \<open>snake_case_to_camel_case\<close> lives in the tap's
  transform module and is a parameter here.
\<close>

definition valid_selected_fields :: "(string \<Rightarrow> string) \<Rightarrow> string list \<Rightarrow> string list" where
  "valid_selected_fields snake_case_to_camel_case selected =
     map snake_case_to_camel_case
       (filter (\<lambda>field. snake_case_to_camel_case field \<notin> set FIELDS_UNAVAILABLE_FOR_AD_ANALYTICS)
          selected)"

text \<open>
  The append step: \<open>dateRange\<close> and \<open>pivotValues\<close>, in this order, are appended to a chunk
  that lacks them.
\<close>

definition append_required :: "string list \<Rightarrow> string list" where
  "append_required chunk =
     fold (\<lambda>field c. if field \<in> set c then c else c @ [field])
       [''dateRange'', ''pivotValues''] chunk"

definition first_chunk :: "string list list" where
  "first_chunk = [[''dateRange'', ''pivotValues'']]"

definition analytics_chunks :: "string list \<Rightarrow> py_error + string list list" where
  "analytics_chunks fields =
     (case split_into_chunks fields MAX_CHUNK_LENGTH of
        Inl e \<Rightarrow> Inl e
      | Inr cs \<Rightarrow> Inr (map append_required (first_chunk @ cs)))"

text \<open>An instance: forty metric fields of the analytics endpoint.\<close>

definition example_fields :: "string list" where
  "example_fields =
     [''impressions'', ''clicks'', ''likes'', ''shares'',
      ''comments'', ''follows'', ''reactions'', ''sends'',
      ''opens'', ''landingPageClicks'', ''companyPageClicks'', ''totalEngagements'',
      ''otherEngagements'', ''costInUsd'', ''costInLocalCurrency'', ''actionClicks'',
      ''adUnitClicks'', ''cardClicks'', ''cardImpressions'', ''commentLikes'',
      ''fullScreenPlays'', ''leadGenerationMailContactInfoShares'', ''oneClickLeads'', ''oneClickLeadFormOpens'',
      ''textUrlClicks'', ''videoCompletions'', ''videoFirstQuartileCompletions'', ''videoMidpointCompletions'',
      ''videoStarts'', ''videoThirdQuartileCompletions'', ''videoViews'', ''viralCardClicks'',
      ''viralCardImpressions'', ''viralClicks'', ''viralComments'', ''viralFollows'',
      ''viralImpressions'', ''viralLikes'', ''viralShares'', ''viralReactions'']"

section \<open>Strings and the library functions the tap calls\<close>

text \<open>
  \<open>starts_with s p\<close> is \<open>s.startswith(p)\<close> and \<open>contains_str s p\<close> is \<open>p in s\<close> for two
  strings. \<open>str_int\<close> is \<open>str\<close> of an integer.
\<close>

fun starts_with :: "string \<Rightarrow> string \<Rightarrow> bool" where
  "starts_with s [] = True"
| "starts_with [] (p # ps) = False"
| "starts_with (c # cs) (p # ps) = (c = p \<and> starts_with cs ps)"

fun contains_str :: "string \<Rightarrow> string \<Rightarrow> bool" where
  "contains_str [] p = (p = [])"
| "contains_str (c # cs) p = (starts_with (c # cs) p \<or> contains_str cs p)"

definition digit_char :: "nat \<Rightarrow> char" where
  "digit_char d = ''0123456789'' ! d"

fun digits :: "nat \<Rightarrow> string" where
  "digits n = (if n < 10 then [digit_char n] else digits (n div 10) @ [digit_char (n mod 10)])"

definition str_int :: "int \<Rightarrow> string" where
  "str_int i = (if i < 0 then CHR ''-'' # digits (nat (- i)) else digits (nat i))"


text \<open>
  Functions of the Python library and of the tap's collaborators are parameters, held in
  one record:
  \<^item> \<open>repr\<close>: \<open>str\<close> of a list or a dict (of the scalars \<open>str\<close> is written out below);
  \<^item> \<open>re_template\<close>: what the \<open>re\<close> module makes of a replacement template: an error for
    a bad escape, else the replacement as a function of the matched text;
  \<^item> \<open>unquote\<close>: \<open>urllib.parse.unquote\<close>;
  \<^item> \<open>set_order\<close>: the order in which a set built from the given elements is iterated
    (it depends on the hashes; the theorems ask only that it lists every element once).
\<close>

record stdlib =
  repr :: "json \<Rightarrow> string"
  re_template :: "string \<Rightarrow> py_error + (string \<Rightarrow> string)"
  unquote :: "json \<Rightarrow> py_error + json"
  set_order :: "string list \<Rightarrow> string list"

fun py_str :: "stdlib \<Rightarrow> json \<Rightarrow> string" where
  "py_str L (JStr s) = s"
| "py_str L JNull = ''None''"
| "py_str L (JBool b) = (if b then ''True'' else ''False'')"
| "py_str L (JInt i) = str_int i"
| "py_str L v = repr L v"

text \<open>
  \<open>d.get(k, default)\<close>, \<open>x in v\<close> for a string \<open>x\<close>, and iteration \<open>for x in v\<close>, on a
  decoded value of any type: what is not a dict has no \<open>get\<close>, and a scalar is neither a
  container nor iterable.
\<close>

fun py_get :: "json \<Rightarrow> string \<Rightarrow> json \<Rightarrow> py_error + json" where
  "py_get (JObj kvs) k d = Inr (case map_of kvs k of None \<Rightarrow> d | Some v \<Rightarrow> v)"
| "py_get v k d = Inl (Raise AttributeError ''object has no attribute get'')"

fun py_contains :: "json \<Rightarrow> string \<Rightarrow> py_error + bool" where
  "py_contains (JStr s) x = Inr (contains_str s x)"
| "py_contains (JList vs) x = Inr (JStr x \<in> set vs)"
| "py_contains (JObj kvs) x = Inr (x \<in> fst ` set kvs)"
| "py_contains v x = Inl (Raise TypeError ''argument is not iterable'')"

fun py_iter :: "json \<Rightarrow> py_error + json list" where
  "py_iter (JList vs) = Inr vs"
| "py_iter (JObj kvs) = Inr (map (\<lambda>(k, v). JStr k) kvs)"
| "py_iter (JStr s) = Inr (map (\<lambda>c. JStr [c]) s)"
| "py_iter v = Inl (Raise TypeError ''object is not iterable'')"

text \<open>\<open>d[k]\<close> on a dict, and an argument that must be an integer (a bool is one).\<close>

definition py_item :: "pydict \<Rightarrow> string \<Rightarrow> py_error + json" where
  "py_item d k = (case map_of d k of None \<Rightarrow> Inl (Raise KeyError k) | Some v \<Rightarrow> Inr v)"

fun as_index :: "json \<Rightarrow> py_error + int" where
  "as_index (JInt i) = Inr i"
| "as_index (JBool b) = Inr (if b then 1 else 0)"
| "as_index v = Inl (Raise TypeError ''object cannot be interpreted as an integer'')"

text \<open>
  \<open>v[k]\<close> for a string \<open>k\<close> on a decoded value of any type, \<open>v.items()\<close>, and
  \<open>sep.join(xs)\<close>.
\<close>

fun py_subscript :: "json \<Rightarrow> string \<Rightarrow> py_error + json" where
  "py_subscript (JObj kvs) k = py_item kvs k"
| "py_subscript (JList vs) k = Inl (Raise TypeError ''list indices must be integers or slices, not str'')"
| "py_subscript (JStr s) k = Inl (Raise TypeError ''string indices must be integers'')"
| "py_subscript v k = Inl (Raise TypeError ''object is not subscriptable'')"

fun py_items :: "json \<Rightarrow> py_error + (string \<times> json) list" where
  "py_items (JObj kvs) = Inr kvs"
| "py_items v = Inl (Raise AttributeError ''object has no attribute items'')"

fun join_str :: "string \<Rightarrow> string list \<Rightarrow> string" where
  "join_str sep [] = []"
| "join_str sep [x] = x"
| "join_str sep (x # y # ys) = x @ sep @ join_str sep (y # ys)"

fun is_dict :: "json \<Rightarrow> bool" where
  "is_dict (JObj kvs) = True"
| "is_dict v = False"

text \<open>
  \<open>re.sub(r'pageToken=[^&]+', repl, s)\<close>: every match, leftmost first and as long as it
  can be, is replaced; a \<open>pageToken=\<close> followed by no character other than \<open>&\<close> is no
  match.
\<close>

function re_sub_pageToken :: "(string \<Rightarrow> string) \<Rightarrow> string \<Rightarrow> string" where
  "re_sub_pageToken repl [] = []"
| "re_sub_pageToken repl (c # cs) =
     (if starts_with (c # cs) ''pageToken='' \<and> takeWhile (\<lambda>x. x \<noteq> CHR ''&'') (drop 10 (c # cs)) \<noteq> []
      then repl (''pageToken='' @ takeWhile (\<lambda>x. x \<noteq> CHR ''&'') (drop 10 (c # cs)))
           @ re_sub_pageToken repl (dropWhile (\<lambda>x. x \<noteq> CHR ''&'') (drop 10 (c # cs)))
      else c # re_sub_pageToken repl cs)"
  by pat_completeness auto
termination
  by (relation "measure (\<lambda>(repl, s). length s)")
     (auto simp: length_dropWhile_le le_imp_less_Suc order.trans [OF length_dropWhile_le])

section \<open>Pagination cursor\<close>

text \<open>
  \<open>get_next_url\<close> returns the URL of the next page, or \<open>None\<close> when there is none. The
  loop over the links returns at once on a link to the creatives or posts endpoints and
  otherwise keeps the last \<open>next\<close> link it has seen.
\<close>

definition CURSOR_BASED_PAGINATION_STREAMS :: "string list" where
  "CURSOR_BASED_PAGINATION_STREAMS = [''accounts'', ''campaign_groups'', ''campaigns'', ''creatives'']"

definition API_HOST :: string where
  "API_HOST = ''https://api.linkedin.com''"

fun links_loop :: "stdlib \<Rightarrow> string option \<Rightarrow> json list \<Rightarrow> py_error + string option" where
  "links_loop L next_url [] = Inr next_url"
| "links_loop L next_url (link # links) =
     (case py_get link ''rel'' JNull of
        Inl e \<Rightarrow> Inl e
      | Inr rel \<Rightarrow>
          if rel = JStr ''next'' then
            (case py_get link ''href'' JNull of
               Inl e \<Rightarrow> Inl e
             | Inr href \<Rightarrow>
                 if truthy href then
                   (case py_contains href ''rest/creatives'' of
                      Inl e \<Rightarrow> Inl e
                    | Inr in_creatives \<Rightarrow>
                        (case (if in_creatives then Inr True else py_contains href ''rest/posts'') of
                           Inl e \<Rightarrow> Inl e
                         | Inr verbatim \<Rightarrow>
                             if verbatim then Inr (Some (API_HOST @ py_str L href))
                             else (case unquote L href of
                                     Inl e \<Rightarrow> Inl e
                                   | Inr decoded \<Rightarrow>
                                       links_loop L (Some (API_HOST @ py_str L decoded)) links)))
                 else links_loop L next_url links)
          else links_loop L next_url links)"

definition get_next_url :: "stdlib \<Rightarrow> string \<Rightarrow> string \<Rightarrow> json \<Rightarrow> py_error + string option" where
  "get_next_url L stream_name next_url data =
     (if stream_name \<in> set CURSOR_BASED_PAGINATION_STREAMS then
        (case py_get data ''metadata'' (JObj []) of
           Inl e \<Rightarrow> Inl e
         | Inr metadata \<Rightarrow>
             (case py_get metadata ''nextPageToken'' JNull of
                Inl e \<Rightarrow> Inl e
              | Inr next_page_token \<Rightarrow>
                  if truthy next_page_token then
                    (if contains_str next_url ''pageToken='' then
                       (case re_template L (''pageToken='' @ py_str L next_page_token) of
                          Inl e \<Rightarrow> Inl e
                        | Inr repl \<Rightarrow> Inr (Some (re_sub_pageToken repl next_url)))
                     else Inr (Some (next_url @ ''&pageToken='' @ py_str L next_page_token)))
                  else Inr None))
      else
        (case py_get data ''paging'' (JObj []) of
           Inl e \<Rightarrow> Inl e
         | Inr paging \<Rightarrow>
             (case py_get paging ''links'' (JList []) of
                Inl e \<Rightarrow> Inl e
              | Inr links \<Rightarrow>
                  (case py_iter links of
                     Inl e \<Rightarrow> Inl e
                   | Inr ls \<Rightarrow> links_loop L None ls))))"


text \<open>A links entry that is a dict whose relation is not \<open>next\<close>.\<close>

definition other_link :: "json \<Rightarrow> bool" where
  "other_link link = (case link of JObj kvs \<Rightarrow> map_of kvs ''rel'' \<noteq> Some (JStr ''next'') | _ \<Rightarrow> False)"

section \<open>Dates\<close>

text \<open>
  A \<open>datetime.date\<close> is represented by its proleptic Gregorian ordinal (\<open>toordinal()\<close>, day 1
  is 0001-01-01). The library adds a \<open>timedelta\<close> to a date on ordinals, and the order of
  dates is the order of ordinals. \<open>ymd2ord\<close> and \<open>ord2ymd\<close> follow the library's
  conversions between an ordinal and year, month, day; \<open>date_new\<close> is the constructor
  with its range checks, \<open>date_add_days\<close> is \<open>d + timedelta(days=n)\<close>.
\<close>

type_synonym date = int

definition MAXORDINAL :: int where
  "MAXORDINAL = 3652059"

definition is_leap :: "int \<Rightarrow> bool" where
  "is_leap year = (year mod 4 = 0 \<and> (year mod 100 \<noteq> 0 \<or> year mod 400 = 0))"

definition days_before_year :: "int \<Rightarrow> int" where
  "days_before_year year =
     (let y = year - 1 in y * 365 + y div 4 - y div 100 + y div 400)"

definition DAYS_IN_MONTH :: "int list" where
  "DAYS_IN_MONTH = [-1, 31, 28, 31, 30, 31, 30, 31, 31, 30, 31, 30, 31]"

definition DAYS_BEFORE_MONTH :: "int list" where
  "DAYS_BEFORE_MONTH = [-1, 0, 31, 59, 90, 120, 151, 181, 212, 243, 273, 304, 334]"

definition days_in_month :: "int \<Rightarrow> int \<Rightarrow> int" where
  "days_in_month year month =
     (if month = 2 \<and> is_leap year then 29 else DAYS_IN_MONTH ! nat month)"

definition days_before_month :: "int \<Rightarrow> int \<Rightarrow> int" where
  "days_before_month year month =
     DAYS_BEFORE_MONTH ! nat month + (if month > 2 \<and> is_leap year then 1 else 0)"

definition ymd2ord :: "int \<Rightarrow> int \<Rightarrow> int \<Rightarrow> int" where
  "ymd2ord year month day = days_before_year year + days_before_month year month + day"

definition ord2ymd :: "int \<Rightarrow> int \<times> int \<times> int" where
  "ord2ymd ordinal =
     (let n = ordinal - 1;
          n400 = n div 146097; n = n mod 146097;
          year = n400 * 400 + 1;
          n100 = n div 36524; n = n mod 36524;
          n4 = n div 1461; n = n mod 1461;
          n1 = n div 365; n = n mod 365;
          year = year + n100 * 100 + n4 * 4 + n1
      in if n1 = 4 \<or> n100 = 4 then (year - 1, 12, 31)
         else
           let leapyear = (n1 = 3 \<and> (n4 \<noteq> 24 \<or> n100 = 3));
               month = (n + 50) div 32;
               preceding = DAYS_BEFORE_MONTH ! nat month + (if month > 2 \<and> leapyear then 1 else 0)
           in if preceding > n
              then (year, month - 1,
                    n - (preceding - (DAYS_IN_MONTH ! nat (month - 1)
                                       + (if month - 1 = 2 \<and> leapyear then 1 else 0))) + 1)
              else (year, month, n - preceding + 1))"

definition date_year :: "date \<Rightarrow> int" where "date_year d = fst (ord2ymd d)"
definition date_month :: "date \<Rightarrow> int" where "date_month d = fst (snd (ord2ymd d))"
definition date_day :: "date \<Rightarrow> int" where "date_day d = snd (snd (ord2ymd d))"

definition date_new :: "int \<Rightarrow> int \<Rightarrow> int \<Rightarrow> py_error + date" where
  "date_new year month day =
     (if \<not> (1 \<le> year \<and> year \<le> 9999) then Inl (Raise ValueError ''year is out of range'')
      else if \<not> (1 \<le> month \<and> month \<le> 12) then Inl (Raise ValueError ''month must be in 1..12'')
      else if \<not> (1 \<le> day \<and> day \<le> days_in_month year month)
        then Inl (Raise ValueError ''day is out of range for month'')
      else Inr (ymd2ord year month day))"

definition date_add_days :: "date \<Rightarrow> int \<Rightarrow> py_error + date" where
  "date_add_days d days =
     (if \<bar>days\<bar> > 999999999 then Inl (Raise OverflowError ''days out of range for timedelta'')
      else if 0 < d + days \<and> d + days \<le> MAXORDINAL then Inr (d + days)
      else Inl (Raise OverflowError ''date value out of range''))"

section \<open>Advancing the date window\<close>

definition date_of_values :: "json \<Rightarrow> json \<Rightarrow> json \<Rightarrow> py_error + date" where
  "date_of_values year month day =
     seq (as_index year) (\<lambda>y. seq (as_index month) (\<lambda>m. seq (as_index day) (\<lambda>d. date_new y m d)))"

text \<open>
  \<open>shift_sync_window\<close>: the end date is read from the parameters, the new end is the
  earlier of today and the end date moved by the window size (the forced size when one
  is given and is not 0), and the six date fields are stored into a copy of the
  parameters.
\<close>

definition shift_sync_window ::
    "pydict \<Rightarrow> date \<Rightarrow> int \<Rightarrow> int option \<Rightarrow> py_error + (date \<times> date \<times> pydict)" where
  "shift_sync_window params today date_window_size forced_window_size =
     seq (py_item params ''dateRange.end.year'') (\<lambda>year.
     seq (py_item params ''dateRange.end.month'') (\<lambda>month.
     seq (py_item params ''dateRange.end.day'') (\<lambda>day.
     seq (date_of_values year month day) (\<lambda>current_end.
     seq (date_add_days current_end
            (case forced_window_size of
               None \<Rightarrow> date_window_size
             | Some forced \<Rightarrow> if forced \<noteq> 0 then forced else date_window_size)) (\<lambda>shifted.
       let new_end = min today shifted;
           new_params = dict_update params
             [(''dateRange.start.day'', JInt (date_day current_end)),
              (''dateRange.start.month'', JInt (date_month current_end)),
              (''dateRange.start.year'', JInt (date_year current_end)),
              (''dateRange.end.day'', JInt (date_day new_end)),
              (''dateRange.end.month'', JInt (date_month new_end)),
              (''dateRange.end.year'', JInt (date_year new_end))]
       in Inr (current_end, new_end, new_params))))))"

text \<open>The end date the parameters hold, as \<open>shift_sync_window\<close> reads it.\<close>

definition params_end :: "pydict \<Rightarrow> py_error + date" where
  "params_end params =
     seq (py_item params ''dateRange.end.year'') (\<lambda>year.
     seq (py_item params ''dateRange.end.month'') (\<lambda>month.
     seq (py_item params ''dateRange.end.day'') (\<lambda>day.
       date_of_values year month day)))"

definition window_size :: "int \<Rightarrow> int option \<Rightarrow> int" where
  "window_size date_window_size forced_window_size =
     (case forced_window_size of
        None \<Rightarrow> date_window_size
      | Some forced \<Rightarrow> if forced \<noteq> 0 then forced else date_window_size)"

section \<open>Identifier resolver\<close>

text \<open>
  The HTTP client is a function of the number of requests made before, the URL and the
  endpoint name, so that two requests for one URL can get two answers; it returns the
  decoded body or the exception it raised. (The header dict the resolvers pass is the same
  in every request and is not a parameter.) The requests are logged in the order they
  are made.
\<close>

type_synonym client = "nat \<Rightarrow> string \<Rightarrow> string \<Rightarrow> py_error + json"

type_synonym request_log = "(string \<times> string) list"

text \<open>
  The state of a resolver during \<open>_batch_resolve\<close>: the dict \<open>resolved\<close> it returns, its
  cache (written, never read) and the requests made.
\<close>

record rstate =
  resolved :: pydict
  cache :: pydict
  requests :: request_log

datatype resolver = Functions | Titles | Geo | Industries | Organizations | Seniorities

definition create_resolver :: "string \<Rightarrow> py_error + resolver" where
  "create_resolver endpoint =
     (if endpoint = ''functions'' then Inr Functions
      else if endpoint = ''titles'' then Inr Titles
      else if endpoint = ''geo'' then Inr Geo
      else if endpoint = ''industries'' then Inr Industries
      else if endpoint = ''organizations'' then Inr Organizations
      else if endpoint = ''seniorities'' then Inr Seniorities
      else Inl (Raise ValueError (''Unsupported endpoint: '' @ endpoint)))"

fun resolver_endpoint :: "resolver \<Rightarrow> string" where
  "resolver_endpoint Functions = ''functions''"
| "resolver_endpoint Titles = ''titles''"
| "resolver_endpoint Geo = ''geo''"
| "resolver_endpoint Industries = ''industries''"
| "resolver_endpoint Organizations = ''organizations''"
| "resolver_endpoint Seniorities = ''seniorities''"

text \<open>\<open>urn.split(':')[-1]\<close>: what follows the last colon.\<close>

definition extract_code :: "string \<Rightarrow> string" where
  "extract_code urn = rev (takeWhile (\<lambda>c. c \<noteq> CHR '':'') (rev urn))"

text \<open>The request URL of a resolver for a chunk of codes; \<open>if self.locale\<close> is false for the empty string too.\<close>

fun resolver_url :: "resolver \<Rightarrow> string option \<Rightarrow> string list \<Rightarrow> string" where
  "resolver_url Functions locale chunk =
     ''https://api.linkedin.com/v2/functions''
       @ (case locale of None \<Rightarrow> [] | Some l \<Rightarrow> if l \<noteq> [] then ''?locale='' @ l else [])"
| "resolver_url Titles locale chunk =
     ''https://api.linkedin.com/v2/titles?ids=List('' @ join_str '','' chunk @ '')''
       @ (case locale of None \<Rightarrow> [] | Some l \<Rightarrow> if l \<noteq> [] then ''&locale='' @ l else [])"
| "resolver_url Geo locale chunk =
     ''https://api.linkedin.com/v2/geo?ids=List('' @ join_str '','' chunk @ '')''
       @ (case locale of None \<Rightarrow> [] | Some l \<Rightarrow> if l \<noteq> [] then ''&locale='' @ l else [])"
| "resolver_url Industries locale chunk =
     ''https://api.linkedin.com/v2/industries?ids=List('' @ join_str '','' chunk @ '')''
       @ ''&locale=(language:en,country:US)''"
| "resolver_url Organizations locale chunk =
     ''https://api.linkedin.com/rest/organizationsLookup?ids=List('' @ join_str '','' chunk @ '')''"
| "resolver_url Seniorities locale chunk = ''https://api.linkedin.com/v2/seniorities''"

text \<open>\<open>x.get('name', {}).get('localized', {}).get('en_US', default)\<close>.\<close>

definition localized_name :: "json \<Rightarrow> json \<Rightarrow> py_error + json" where
  "localized_name x dflt =
     seq (py_get x ''name'' (JObj [])) (\<lambda>name.
     seq (py_get name ''localized'' (JObj [])) (\<lambda>localized.
       py_get localized ''en_US'' dflt))"

text \<open>The name a resolver reads from one result of a \<open>results\<close> dict.\<close>

fun result_name :: "resolver \<Rightarrow> json \<Rightarrow> string \<Rightarrow> py_error + json" where
  "result_name Titles result code =
     seq (localized_name result JNull) (\<lambda>a.
       if truthy a then Inr a
       else seq (py_get result ''name'' (JObj [])) (\<lambda>name.
            seq (py_get name ''default'' JNull) (\<lambda>b.
              if truthy b then Inr b else Inr (JStr code))))"
| "result_name Organizations result code =
     seq (localized_name result JNull) (\<lambda>a.
       if truthy a then Inr a
       else seq (py_get result ''localizedName'' JNull) (\<lambda>b.
              if truthy b then Inr b else Inr (JStr code)))"
| "result_name Geo result code =
     seq (py_get result ''defaultLocalizedName'' (JObj [])) (\<lambda>d. py_get d ''value'' (JStr code))"
| "result_name r result code = localized_name result (JStr code)"

text \<open>
  \<open>resolved[code] = name\<close> followed by \<open>self._add_to_cache(code, name)\<close>; the geo resolver
  does not write its cache.
\<close>

definition store_name :: "resolver \<Rightarrow> string \<Rightarrow> json \<Rightarrow> rstate \<Rightarrow> rstate" where
  "store_name r code name st =
     st\<lparr>resolved := AList.update code name (resolved st),
        cache := (if r = Geo then cache st else AList.update code name (cache st))\<rparr>"

text \<open>
  The loops over a response. An exception leaves the loop with the state reached so far.
  \<open>results_loop\<close> is \<open>for code, result in response['results'].items()\<close>; \<open>elements_loop\<close> is
  \<open>for element in ...\<close> of the functions and seniorities resolvers, \<open>wanted\<close> being the
  chunk for the first and all codes for the second.
\<close>

fun results_loop :: "resolver \<Rightarrow> (string \<times> json) list \<Rightarrow> rstate \<Rightarrow> rstate \<times> py_error option" where
  "results_loop r [] st = (st, None)"
| "results_loop r ((code, result) # rest) st =
     (if is_dict result then
        (case result_name r result code of
           Inl e \<Rightarrow> (st, Some e)
         | Inr name \<Rightarrow> results_loop r rest (store_name r code name st))
      else results_loop r rest (st\<lparr>resolved := AList.update code (JStr code) (resolved st)\<rparr>))"

fun elements_loop ::
    "stdlib \<Rightarrow> resolver \<Rightarrow> string list \<Rightarrow> json list \<Rightarrow> rstate \<Rightarrow> rstate \<times> py_error option" where
  "elements_loop L r wanted [] st = (st, None)"
| "elements_loop L r wanted (element # rest) st =
     (if is_dict element then
        (case py_get element ''id'' JNull of
           Inl e \<Rightarrow> (st, Some e)
         | Inr ident \<Rightarrow>
             if py_str L ident \<in> set wanted then
               (case localized_name element (JStr (py_str L ident)) of
                  Inl e \<Rightarrow> (st, Some e)
                | Inr name \<Rightarrow> elements_loop L r wanted rest (store_name r (py_str L ident) name st))
             else elements_loop L r wanted rest st)
      else elements_loop L r wanted rest st)"

text \<open>
  What a resolver does with the response of one request, inside its \<open>try\<close>. For the
  seniorities resolver the guard is \<open>response and isinstance(response, dict)\<close> and the
  elements are \<open>response.get('elements', [])\<close>; for the others the guard is
  \<open>response and key in response\<close> and the collection is \<open>response[key]\<close>.
\<close>

definition process_response ::
    "stdlib \<Rightarrow> resolver \<Rightarrow> string list \<Rightarrow> json \<Rightarrow> rstate \<Rightarrow> rstate \<times> py_error option" where
  "process_response L r wanted response st =
     (if r = Seniorities then
        (if truthy response \<and> is_dict response then
           (case seq (py_get response ''elements'' (JList [])) py_iter of
              Inl e \<Rightarrow> (st, Some e)
            | Inr elements \<Rightarrow> elements_loop L r wanted elements st)
         else (st, None))
      else if r = Functions then
        (case (if truthy response then py_contains response ''elements'' else Inr False) of
           Inl e \<Rightarrow> (st, Some e)
         | Inr False \<Rightarrow> (st, None)
         | Inr True \<Rightarrow>
             (case seq (py_subscript response ''elements'') py_iter of
                Inl e \<Rightarrow> (st, Some e)
              | Inr elements \<Rightarrow> elements_loop L r wanted elements st))
      else
        (case (if truthy response then py_contains response ''results'' else Inr False) of
           Inl e \<Rightarrow> (st, Some e)
         | Inr False \<Rightarrow> (st, None)
         | Inr True \<Rightarrow>
             (case seq (py_subscript response ''results'') py_items of
                Inl e \<Rightarrow> (st, Some e)
              | Inr items \<Rightarrow> results_loop r items st)))"

text \<open>The \<open>try\<close> block for one chunk: one request, then the response is processed.\<close>

definition request_chunk ::
    "stdlib \<Rightarrow> client \<Rightarrow> resolver \<Rightarrow> string option \<Rightarrow> string list \<Rightarrow> rstate
       \<Rightarrow> rstate \<times> py_error option" where
  "request_chunk L client r locale chunk st =
     (let url = resolver_url r locale chunk;
          st1 = st\<lparr>requests := requests st @ [(url, resolver_endpoint r)]\<rparr>
      in case client (length (requests st)) url (resolver_endpoint r) of
           Inl e \<Rightarrow> (st1, Some e)
         | Inr response \<Rightarrow> process_response L r chunk response st1)"

text \<open>The \<open>except\<close> block: every code of the chunk that has no entry is mapped to itself.\<close>

definition fallback :: "string list \<Rightarrow> rstate \<Rightarrow> rstate" where
  "fallback chunk st =
     fold (\<lambda>code s. if code \<in> fst ` set (resolved s) then s
                     else s\<lparr>resolved := AList.update code (JStr code) (resolved s)\<rparr>)
       chunk st"

definition resolve_chunk ::
    "stdlib \<Rightarrow> client \<Rightarrow> resolver \<Rightarrow> string option \<Rightarrow> string list \<Rightarrow> rstate \<Rightarrow> rstate" where
  "resolve_chunk L client r locale chunk st =
     (case request_chunk L client r locale chunk st of
        (st1, None) \<Rightarrow> st1
      | (st1, Some e) \<Rightarrow> fallback chunk st1)"

definition chunk_size :: nat where
  "chunk_size = 150"

definition code_chunks :: "string list \<Rightarrow> string list list" where
  "code_chunks codes =
     map (\<lambda>i. take chunk_size (drop i codes)) (py_range (length codes) chunk_size)"

text \<open>
  \<open>_batch_resolve\<close>, given the codes in the order the set lists them. The seniorities
  resolver makes one request for all codes; the others make one request per chunk.
\<close>

definition batch_resolve ::
    "stdlib \<Rightarrow> client \<Rightarrow> resolver \<Rightarrow> string option \<Rightarrow> string list \<Rightarrow> request_log \<Rightarrow> rstate" where
  "batch_resolve L client r locale codes log =
     (if r = Seniorities
      then resolve_chunk L client r locale codes \<lparr>resolved = [], cache = [], requests = log\<rparr>
      else fold (resolve_chunk L client r locale) (code_chunks codes)
             \<lparr>resolved = [], cache = [], requests = log\<rparr>)"

text \<open>
  \<open>resolve\<close> and \<open>resolve_urns\<close>: the mapping returned and the request log. The URNs are
  strings, as the signature says.
\<close>

definition resolve ::
    "stdlib \<Rightarrow> client \<Rightarrow> resolver \<Rightarrow> string option \<Rightarrow> string list \<Rightarrow> request_log
       \<Rightarrow> pydict \<times> request_log" where
  "resolve L client r locale urns log =
     (if urns = [] then ([], log)
      else let st = batch_resolve L client r locale (set_order L (map extract_code urns)) log
           in (resolved st, requests st))"

definition resolve_urns ::
    "stdlib \<Rightarrow> client \<Rightarrow> string list \<Rightarrow> string \<Rightarrow> string option \<Rightarrow> request_log
       \<Rightarrow> py_error + (pydict \<times> request_log)" where
  "resolve_urns L client urns endpoint locale log =
     seq (create_resolver endpoint) (\<lambda>r. Inr (resolve L client r locale urns log))"

text \<open>
  The batches of codes a resolver makes a request for: all codes at once for the
  seniorities resolver, chunks of at most 150 codes for the others.
\<close>

definition batches :: "resolver \<Rightarrow> string list \<Rightarrow> string list list" where
  "batches r codes = (if r = Seniorities then [codes] else code_chunks codes)"

text \<open>\<open>str(element.get('id'))\<close> of an element that is a dict.\<close>

definition element_code :: "stdlib \<Rightarrow> json \<Rightarrow> string" where
  "element_code L element =
     (case py_get element ''id'' JNull of Inl e \<Rightarrow> [] | Inr ident \<Rightarrow> py_str L ident)"

text \<open>
  For the statements about the fetched names. A path of keys is readable in a value if
  every value the path passes through is a dict, up to the first key that is absent:
  then the chain of \<open>get\<close> calls along the path raises nothing. \<open>path_value\<close> is the value
  at the end of the path, if no step of the path is missing.
\<close>

fun path_readable :: "json \<Rightarrow> string list \<Rightarrow> bool" where
  "path_readable v [] = True"
| "path_readable (JObj kvs) (k # ks) =
     (case map_of kvs k of None \<Rightarrow> True | Some v \<Rightarrow> path_readable v ks)"
| "path_readable v (k # ks) = False"

fun path_value :: "json \<Rightarrow> string list \<Rightarrow> json option" where
  "path_value v [] = Some v"
| "path_value (JObj kvs) (k # ks) =
     (case map_of kvs k of None \<Rightarrow> None | Some v \<Rightarrow> path_value v ks)"
| "path_value v (k # ks) = None"

text \<open>
  The name path of a variant, and the name fetched for a code from a result or element:
  \<^item> geo: the value at \<open>defaultLocalizedName.value\<close>, the code if a step is missing;
  \<^item> titles: the value at \<open>name.localized.en_US\<close> if there is one and it is true, else the
    value at \<open>name.default\<close> if there is one and it is true, else the code;
  \<^item> organizations: the value at \<open>name.localized.en_US\<close> if there is one and it is true,
    else the value of \<open>localizedName\<close> if there is one and it is true, else the code;
  \<^item> functions, industries, seniorities: the value at \<open>name.localized.en_US\<close>, the code if
    a step is missing.
\<close>

definition name_path :: "resolver \<Rightarrow> string list" where
  "name_path r = (if r = Geo then [''defaultLocalizedName'', ''value'']
                  else [''name'', ''localized'', ''en_US''])"

definition true_value :: "json option \<Rightarrow> json option" where
  "true_value x = (case x of None \<Rightarrow> None | Some v \<Rightarrow> if truthy v then Some v else None)"

definition fetched_name :: "resolver \<Rightarrow> json \<Rightarrow> string \<Rightarrow> json" where
  "fetched_name r x code =
     (if r = Titles then
        (case true_value (path_value x [''name'', ''localized'', ''en_US'']) of
           Some a \<Rightarrow> a
         | None \<Rightarrow> (case true_value (path_value x [''name'', ''default'']) of
                      Some b \<Rightarrow> b | None \<Rightarrow> JStr code))
      else if r = Organizations then
        (case true_value (path_value x [''name'', ''localized'', ''en_US'']) of
           Some a \<Rightarrow> a
         | None \<Rightarrow> (case true_value (path_value x [''localizedName'']) of
                      Some b \<Rightarrow> b | None \<Rightarrow> JStr code))
      else (case path_value x (name_path r) of Some v \<Rightarrow> v | None \<Rightarrow> JStr code))"

section \<open>Merging the pages of an analytics window\<close>

text \<open>
  \<open>v[0]\<close> on a decoded value, and whether a value can be a dict key or a set member. A
  bool is equal to the integer 0 or 1 as a key, so keys are compared after \<open>key_value\<close>.
\<close>

fun py_first :: "json \<Rightarrow> py_error + json" where
  "py_first (JList vs) =
     (case vs of [] \<Rightarrow> Inl (Raise IndexError ''list index out of range'') | v # rest \<Rightarrow> Inr v)"
| "py_first (JStr s) =
     (case s of [] \<Rightarrow> Inl (Raise IndexError ''string index out of range'') | c # rest \<Rightarrow> Inr (JStr [c]))"
| "py_first (JObj kvs) = Inl (Raise KeyError ''0'')"
| "py_first v = Inl (Raise TypeError ''object is not subscriptable'')"

fun hashable :: "json \<Rightarrow> bool" where
  "hashable (JList vs) = False"
| "hashable (JObj kvs) = False"
| "hashable v = True"

fun key_value :: "json \<Rightarrow> json" where
  "key_value (JBool b) = JInt (if b then 1 else 0)"
| "key_value v = v"

text \<open>
  The endpoint and the locale of the streams that have a resolution configuration (the
  \<open>name_path\<close> of a configuration is passed on and never read).
\<close>

definition resolution_configs :: "(string \<times> string \<times> string option) list" where
  "resolution_configs =
     [(''ad_analytics_by_member_country_v2'', ''geo'', Some ''(language:en,country:US)''),
      (''ad_analytics_by_member_region_v2'', ''geo'', Some ''(language:en,country:US)''),
      (''ad_analytics_by_member_job_function'', ''functions'', Some ''en_US''),
      (''ad_analytics_by_member_job_title'', ''titles'', Some ''en_US''),
      (''ad_analytics_by_member_industry'', ''industries'', Some ''(language:en,country:US)''),
      (''ad_analytics_by_member_company'', ''organizations'', None),
      (''ad_analytics_by_member_seniority'', ''seniorities'', None)]"

text \<open>
  The records merged so far, in insertion order, keyed by the pivot value and the start
  date string.
\<close>

type_synonym records = "((json \<times> string) \<times> pydict) list"

text \<open>
  \<open>element['dateRange']['start']\<close>, \<open>element['pivotValues'][0]\<close> and
  \<open>'{}-{}-{}'.format(temp_start['year'], temp_start['month'], temp_start['day'])\<close>.
\<close>

definition start_of :: "json \<Rightarrow> py_error + json" where
  "start_of element =
     seq (py_subscript element ''dateRange'') (\<lambda>date_range. py_subscript date_range ''start'')"

definition pivot_value :: "json \<Rightarrow> py_error + json" where
  "pivot_value element = seq (py_subscript element ''pivotValues'') py_first"

definition string_start :: "stdlib \<Rightarrow> json \<Rightarrow> py_error + string" where
  "string_start L temp_start =
     seq (py_subscript temp_start ''year'') (\<lambda>y.
     seq (py_subscript temp_start ''month'') (\<lambda>m.
     seq (py_subscript temp_start ''day'') (\<lambda>d.
       Inr (py_str L y @ ''-'' @ py_str L m @ ''-'' @ py_str L d))))"

text \<open>\<open>element['pivot'] = pivot\<close> and \<open>element["pivot_value"] = temp_pivotValue\<close>.\<close>

definition tag_element :: "json \<Rightarrow> json \<Rightarrow> pydict \<Rightarrow> pydict" where
  "tag_element pivot temp_pivotValue kvs =
     AList.update ''pivot_value'' temp_pivotValue (AList.update ''pivot'' pivot kvs)"

text \<open>
  The body of the inner loop of \<open>merge_responses\<close> for one element. \<open>collect\<close> is
  \<open>client and stream_name in resolution_configs\<close>; the pivot values collected for
  resolution are listed in the order they are added to the set. The elements of the pages
  are distinct objects, as a decoded response has them.
\<close>

definition merge_element ::
    "stdlib \<Rightarrow> json \<Rightarrow> bool \<Rightarrow> json \<Rightarrow> records \<times> json list \<Rightarrow> py_error + records \<times> json list" where
  "merge_element L pivot collect element acc =
     (case acc of (full_records, urns_to_resolve) \<Rightarrow>
        seq (start_of element) (\<lambda>temp_start.
        seq (pivot_value element) (\<lambda>temp_pivotValue.
          case element of
            JObj kvs \<Rightarrow>
              seq (if collect
                   then (if hashable temp_pivotValue then Inr (urns_to_resolve @ [temp_pivotValue])
                         else Inl (Raise TypeError ''unhashable type''))
                   else Inr urns_to_resolve) (\<lambda>urns.
              seq (string_start L temp_start) (\<lambda>s.
                if hashable temp_pivotValue then
                  (case map_of full_records (key_value temp_pivotValue, s) of
                     Some record \<Rightarrow>
                       Inr (AList.update (key_value temp_pivotValue, s)
                              (dict_update record (tag_element pivot temp_pivotValue kvs)) full_records,
                            urns)
                   | None \<Rightarrow>
                       Inr (full_records
                              @ [((key_value temp_pivotValue, s), tag_element pivot temp_pivotValue kvs)],
                            urns))
                else Inl (Raise TypeError ''unhashable type'')))
          | _ \<Rightarrow> Inl (Raise TypeError ''object does not support item assignment''))))"

fun merge_page ::
    "stdlib \<Rightarrow> json \<Rightarrow> bool \<Rightarrow> json list \<Rightarrow> records \<times> json list \<Rightarrow> py_error + records \<times> json list" where
  "merge_page L pivot collect [] acc = Inr acc"
| "merge_page L pivot collect (element # rest) acc =
     seq (merge_element L pivot collect element acc) (merge_page L pivot collect rest)"

fun merge_pages ::
    "stdlib \<Rightarrow> json \<Rightarrow> bool \<Rightarrow> json list \<Rightarrow> records \<times> json list \<Rightarrow> py_error + records \<times> json list" where
  "merge_pages L pivot collect [] acc = Inr acc"
| "merge_pages L pivot collect (page # rest) acc =
     seq (py_iter page) (\<lambda>elements.
     seq (merge_page L pivot collect elements acc) (merge_pages L pivot collect rest))"

text \<open>
  The URNs handed to the resolver must be strings (\<open>urn.split(':')\<close> in \<open>_extract_code\<close>, which
  no \<open>try\<close> encloses), and so must the pivot value of a record in the last loop.
\<close>

fun as_strings :: "json list \<Rightarrow> py_error + string list" where
  "as_strings [] = Inr []"
| "as_strings (JStr s # rest) = seq (as_strings rest) (\<lambda>ss. Inr (s # ss))"
| "as_strings (v # rest) = Inl (Raise AttributeError ''object has no attribute split'')"

definition name_record :: "pydict \<Rightarrow> pydict \<Rightarrow> py_error + pydict" where
  "name_record resolved_names record =
     seq (py_item record ''pivot_value'') (\<lambda>pv.
       case pv of
         JStr s \<Rightarrow>
           Inr (AList.update ''pivot_value_name''
                  (case map_of resolved_names (extract_code s) of
                     None \<Rightarrow> JStr (extract_code s) | Some name \<Rightarrow> name)
                  record)
       | _ \<Rightarrow> Inl (Raise AttributeError ''object has no attribute split''))"

fun name_records :: "pydict \<Rightarrow> records \<Rightarrow> py_error + records" where
  "name_records resolved_names [] = Inr []"
| "name_records resolved_names ((k, record) # rest) =
     seq (name_record resolved_names record) (\<lambda>named.
     seq (name_records resolved_names rest) (\<lambda>others. Inr ((k, named) # others)))"

text \<open>
  \<open>merge_responses\<close>. The client is \<open>None\<close> when the argument is left out; a client object
  is true. \<open>resolution_config\<close> is the configuration of a stream name, if it has one (the
  name is \<open>None\<close> when left out). The result is the dict returned and the request log.
\<close>

definition resolution_config :: "string option \<Rightarrow> (string \<times> string option) option" where
  "resolution_config stream_name =
     (case stream_name of None \<Rightarrow> None | Some name \<Rightarrow> map_of resolution_configs name)"

definition merge_responses ::
    "stdlib \<Rightarrow> json \<Rightarrow> json list \<Rightarrow> client option \<Rightarrow> string option \<Rightarrow> request_log
       \<Rightarrow> py_error + records \<times> request_log" where
  "merge_responses L pivot data client stream_name log =
     seq (merge_pages L pivot (client \<noteq> None \<and> resolution_config stream_name \<noteq> None) data ([], []))
           (\<lambda>(full_records, urns_to_resolve).
              case (client, resolution_config stream_name) of
                (Some c, Some (endpoint, locale)) \<Rightarrow>
                  seq (as_strings urns_to_resolve) (\<lambda>urns.
                  seq (resolve_urns L c urns endpoint locale log) (\<lambda>(resolved_names, log').
                  seq (name_records resolved_names full_records) (\<lambda>named. Inr (named, log'))))
              | _ \<Rightarrow> Inr (full_records, log))"

text \<open>
  For the statements about \<open>merge_responses\<close>: the elements of all pages, the primary
  key of an element, an element as it is after the two assignments, and the fields of the
  elements with one key merged from first to last, a later value replacing an earlier one.
\<close>

definition elements_of :: "json list \<Rightarrow> json list" where
  "elements_of data = concat (map (\<lambda>page. case py_iter page of Inl e \<Rightarrow> [] | Inr es \<Rightarrow> es) data)"

definition primary_key :: "stdlib \<Rightarrow> json \<Rightarrow> py_error + json \<times> string" where
  "primary_key L element =
     seq (start_of element) (\<lambda>temp_start.
     seq (pivot_value element) (\<lambda>temp_pivotValue.
     seq (string_start L temp_start) (\<lambda>s.
       if hashable temp_pivotValue then Inr (key_value temp_pivotValue, s)
       else Inl (Raise TypeError ''unhashable type''))))"

definition tagged :: "json \<Rightarrow> json \<Rightarrow> pydict" where
  "tagged pivot element =
     (case (element, pivot_value element) of
        (JObj kvs, Inr temp_pivotValue) \<Rightarrow> tag_element pivot temp_pivotValue kvs
      | _ \<Rightarrow> [])"

definition merged_fields :: "stdlib \<Rightarrow> json \<Rightarrow> json \<times> string \<Rightarrow> json list \<Rightarrow> string \<rightharpoonup> json" where
  "merged_fields L pivot k elements =
     foldl (++) Map.empty
       (map (\<lambda>e. map_of (tagged pivot e)) (filter (\<lambda>e. primary_key L e = Inr k) elements))"

section \<open>The video ads stream\<close>

text \<open>
  \<open>get_bookmark\<close> of a stream: the state is \<open>JNull\<close> for \<open>None\<close>.
\<close>

definition get_bookmark :: "string \<Rightarrow> json \<Rightarrow> json \<Rightarrow> py_error + json" where
  "get_bookmark tap_stream_id state dflt =
     (if state = JNull then Inr dflt
      else seq (py_contains state ''bookmarks'') (\<lambda>present.
        if \<not> present then Inr dflt
        else seq (py_get state ''bookmarks'' (JObj [])) (\<lambda>bookmarks.
               py_get bookmarks tap_stream_id dflt)))"

text \<open>\<open>kwargs.get(name)\<close>: \<open>None\<close> for an argument that was not passed by keyword.\<close>

definition kwargs_get :: "(string \<times> json) list \<Rightarrow> string \<Rightarrow> json" where
  "kwargs_get kwargs name = (case map_of kwargs name of None \<Rightarrow> JNull | Some v \<Rightarrow> v)"

definition PERMISSION_DENIED :: string where
  "PERMISSION_DENIED = ''Not enough permissions to access: partnerApiPostsExternal''"

text \<open>
  \<open>VideoAds.sync_endpoint\<close>. Its first argument is what \<open>super().sync_endpoint(*args, **kwargs)\<close>
  did: the pair of the record count and the bookmark value it returned, or the exception
  it raised. The stream has no children, so the inherited method writes no bookmark and
  the state is the one the caller passed.
\<close>

definition VideoAds_sync_endpoint ::
    "py_error + int \<times> json \<Rightarrow> (string \<times> json) list \<Rightarrow> py_error + int \<times> json" where
  "VideoAds_sync_endpoint super_sync_endpoint kwargs =
     (case super_sync_endpoint of
        Inr result \<Rightarrow> Inr result
      | Inl error \<Rightarrow>
          if contains_str (str_of_error error) PERMISSION_DENIED
          then seq (get_bookmark ''video_ads'' (kwargs_get kwargs ''state'') (kwargs_get kwargs ''start_date''))
                 (\<lambda>bookmark. Inr (0, bookmark))
          else Inl error)"

section \<open>Processing the records of a page\<close>

text \<open>
  What \<open>process_records\<close> calls from the Singer library is a parameter:
  \<^item> \<open>stream_schema\<close>: the exception that reading the schema and the metadata of the stream
    from the catalog raises, if it raises one;
  \<^item> \<open>transform\<close>: \<open>Transformer.transform\<close> with that schema and metadata;
  \<^item> \<open>strptime_to_utc\<close>: the instant a date string denotes, as a number;
  \<^item> \<open>write_error\<close>: the \<open>OSError\<close> that writing a record raises, if it raises one.
\<close>

record singer =
  stream_schema :: "py_error option"
  transform :: "json \<Rightarrow> py_error + json"
  strptime_to_utc :: "json \<Rightarrow> py_error + int"
  write_error :: "json \<Rightarrow> py_error option"

text \<open>The records written so far, \<open>max_bookmark_value\<close> and the value of the counter.\<close>

record pstate =
  written :: "json list"
  max_bookmark_value :: json
  counter :: int

text \<open>
  \<open>if parent_id and self.parent: record[self.parent + '_id'] = parent_id\<close>, followed by the
  transformation.
\<close>

definition add_parent_id :: "json \<Rightarrow> string option \<Rightarrow> json \<Rightarrow> py_error + json" where
  "add_parent_id parent_id parent record =
     (case parent of
        None \<Rightarrow> Inr record
      | Some p \<Rightarrow>
          if truthy parent_id \<and> p \<noteq> [] then
            (case record of
               JObj kvs \<Rightarrow> Inr (JObj (AList.update (p @ ''_id'') parent_id kvs))
             | _ \<Rightarrow> Inl (Raise TypeError ''object does not support item assignment''))
          else Inr record)"

definition transformed :: "singer \<Rightarrow> json \<Rightarrow> string option \<Rightarrow> json \<Rightarrow> py_error + json" where
  "transformed S parent_id parent record = seq (add_parent_id parent_id parent record) (transform S)"

text \<open>\<open>self.write_record(transformed_record, ...)\<close> and \<open>counter.increment()\<close>.\<close>

definition emit :: "singer \<Rightarrow> json \<Rightarrow> pstate \<Rightarrow> pstate \<times> py_error option" where
  "emit S transformed_record st =
     (case write_error S transformed_record of
        Some e \<Rightarrow> (st, Some e)
      | None \<Rightarrow> (st\<lparr>written := written st @ [transformed_record], counter := counter st + 1\<rparr>, None))"

text \<open>\<open>bookmark_field and (bookmark_field in transformed_record)\<close>.\<close>

definition has_bookmark :: "string option \<Rightarrow> json \<Rightarrow> py_error + bool" where
  "has_bookmark bookmark_field transformed_record =
     (case bookmark_field of
        None \<Rightarrow> Inr False
      | Some field \<Rightarrow> if field = [] then Inr False else py_contains transformed_record field)"

text \<open>
  \<open>if max_bookmark_value is None or strptime_to_utc(transformed_record[bookmark_field]) >
  strptime_to_utc(max_bookmark_value): max_bookmark_value = transformed_record[bookmark_field]\<close>.
\<close>

definition track_max :: "singer \<Rightarrow> string \<Rightarrow> json \<Rightarrow> pstate \<Rightarrow> py_error + pstate" where
  "track_max S field transformed_record st =
     (if max_bookmark_value st = JNull
      then seq (py_subscript transformed_record field) (\<lambda>v. Inr (st\<lparr>max_bookmark_value := v\<rparr>))
      else seq (py_subscript transformed_record field) (\<lambda>v.
           seq (strptime_to_utc S v) (\<lambda>a.
           seq (strptime_to_utc S (max_bookmark_value st)) (\<lambda>b.
             if a > b then Inr (st\<lparr>max_bookmark_value := v\<rparr>) else Inr st))))"

text \<open>The body of the loop of \<open>process_records\<close> for one record.\<close>

definition process_record ::
    "singer \<Rightarrow> string \<Rightarrow> string option \<Rightarrow> json \<Rightarrow> json \<Rightarrow> string option \<Rightarrow> json \<Rightarrow> pstate
       \<Rightarrow> pstate \<times> py_error option" where
  "process_record S replication_method bookmark_field last_datetime parent_id parent record st =
     (case transformed S parent_id parent record of
        Inl e \<Rightarrow> (st, Some e)
      | Inr transformed_record \<Rightarrow>
          if replication_method = ''FULL_TABLE'' then
            (case emit S transformed_record st of
               (st1, Some e) \<Rightarrow> (st1, Some e)
             | (st1, None) \<Rightarrow>
                 (case has_bookmark bookmark_field transformed_record of
                    Inl e \<Rightarrow> (st1, Some e)
                  | Inr False \<Rightarrow> (st1, None)
                  | Inr True \<Rightarrow>
                      (case track_max S (the bookmark_field) transformed_record st1 of
                         Inl e \<Rightarrow> (st1, Some e)
                       | Inr st2 \<Rightarrow> (st2, None))))
          else
            (case has_bookmark bookmark_field transformed_record of
               Inl e \<Rightarrow> (st, Some e)
             | Inr False \<Rightarrow> emit S transformed_record st
             | Inr True \<Rightarrow>
                 (case track_max S (the bookmark_field) transformed_record st of
                    Inl e \<Rightarrow> (st, Some e)
                  | Inr st1 \<Rightarrow>
                      (case seq (strptime_to_utc S last_datetime) (\<lambda>last_dttm.
                            seq (py_subscript transformed_record (the bookmark_field)) (\<lambda>v.
                            seq (strptime_to_utc S v) (\<lambda>bookmark_dttm.
                              Inr (bookmark_dttm \<ge> last_dttm)))) of
                         Inl e \<Rightarrow> (st1, Some e)
                       | Inr True \<Rightarrow> emit S transformed_record st1
                       | Inr False \<Rightarrow> (st1, None)))))"

fun process_loop ::
    "singer \<Rightarrow> string \<Rightarrow> string option \<Rightarrow> json \<Rightarrow> json \<Rightarrow> string option \<Rightarrow> json list \<Rightarrow> pstate
       \<Rightarrow> pstate \<times> py_error option" where
  "process_loop S replication_method bookmark_field last_datetime parent_id parent [] st = (st, None)"
| "process_loop S replication_method bookmark_field last_datetime parent_id parent (record # rest) st =
     (case process_record S replication_method bookmark_field last_datetime parent_id parent record st of
        (st1, Some e) \<Rightarrow> (st1, Some e)
      | (st1, None) \<Rightarrow>
          process_loop S replication_method bookmark_field last_datetime parent_id parent rest st1)"

text \<open>
  \<open>process_records\<close>: the records written, and either the pair returned (the maximum
  bookmark value and the count) or the exception raised.
\<close>

definition process_records ::
    "singer \<Rightarrow> string \<Rightarrow> string option \<Rightarrow> json \<Rightarrow> json \<Rightarrow> json \<Rightarrow> string option \<Rightarrow> json list
       \<Rightarrow> json list \<times> (py_error + json \<times> int)" where
  "process_records S replication_method bookmark_field max_bookmark last_datetime parent_id parent records =
     (case stream_schema S of
        Some e \<Rightarrow> ([], Inl e)
      | None \<Rightarrow>
          (case process_loop S replication_method bookmark_field last_datetime parent_id parent records
                  \<lparr>written = [], max_bookmark_value = max_bookmark, counter = 0\<rparr> of
             (st, Some e) \<Rightarrow> (written st, Inl e)
           | (st, None) \<Rightarrow> (written st, Inr (max_bookmark_value st, counter st))))"

text \<open>
  For the statement about \<open>process_records\<close>: the bookmark value of a transformed record,
  if the bookmark field is given and present, and whether a record of the batch is kept.
\<close>

definition bookmark_of :: "string option \<Rightarrow> json \<Rightarrow> json option" where
  "bookmark_of bookmark_field transformed_record =
     (case (bookmark_field, transformed_record) of
        (Some field, JObj kvs) \<Rightarrow> if field = [] then None else map_of kvs field
      | _ \<Rightarrow> None)"

definition kept :: "singer \<Rightarrow> string \<Rightarrow> string option \<Rightarrow> json \<Rightarrow> json \<Rightarrow> bool" where
  "kept S replication_method bookmark_field last_datetime transformed_record =
     (replication_method = ''FULL_TABLE''
      \<or> (case bookmark_of bookmark_field transformed_record of
            None \<Rightarrow> True
          | Some v \<Rightarrow> projr (strptime_to_utc S v) \<ge> projr (strptime_to_utc S last_datetime)))"

section \<open>Instances of the parameters\<close>

text \<open>
  A library instance for the instances of the theorems: containers print as a fixed text,
  a template without a backslash is literal, and \<open>unquote\<close> decodes \<open>%XX\<close> bytes.
\<close>

definition hex_value :: "char \<Rightarrow> nat option" where
  "hex_value c =
     (let n = of_char c :: nat in
      if 48 \<le> n \<and> n \<le> 57 then Some (n - 48)
      else if 65 \<le> n \<and> n \<le> 70 then Some (n - 55)
      else if 97 \<le> n \<and> n \<le> 102 then Some (n - 87)
      else None)"

fun percent_decode :: "string \<Rightarrow> string" where
  "percent_decode (c # a # b # rest) =
     (if c = CHR ''%'' then
        (case (hex_value a, hex_value b) of
           (Some x, Some y) \<Rightarrow> char_of (16 * x + y) # percent_decode rest
         | _ \<Rightarrow> c # percent_decode (a # b # rest))
      else c # percent_decode (a # b # rest))"
| "percent_decode s = s"

definition example_lib :: stdlib where
  "example_lib =
     \<lparr> repr = (\<lambda>v. ''<container>''),
       re_template = (\<lambda>s. if CHR 0x5C \<in> set s then Inl (Raise ReError ''bad escape'') else Inr (\<lambda>matched. s)),
       unquote = (\<lambda>v. case v of JStr s \<Rightarrow> Inr (JStr (percent_decode s))
                           | _ \<Rightarrow> Inl (Raise AttributeError ''object has no attribute split'')),
       set_order = remdups \<rparr>"

text \<open>The parameters of an analytics request for the window 2023-12-25 to 2024-01-24.\<close>

definition example_window_params :: pydict where
  "example_window_params =
     [(''q'', JStr ''analytics''), (''pivot'', JStr ''CAMPAIGN''), (''timeGranularity'', JStr ''DAILY''),
      (''count'', JInt 10000), (''campaigns[0]'', JStr ''urn:li:sponsoredCampaign:7''),
      (''dateRange.start.day'', JInt 25), (''dateRange.start.month'', JInt 12),
      (''dateRange.start.year'', JInt 2023),
      (''dateRange.end.day'', JInt 24), (''dateRange.end.month'', JInt 1),
      (''dateRange.end.year'', JInt 2024), (''fields'', JStr ''clicks,dateRange,pivotValues'')]"

text \<open>Two hundred distinct codes, and clients for the resolver instances.\<close>

definition codes200 :: "string list" where
  "codes200 = map (\<lambda>n. str_int (int n)) [0 ..< 200]"

definition failing_client :: client where
  "failing_client n url endpoint = Inl (Raise ClientError ''429 Too Many Requests'')"

text \<open>A functions response that names function 1 only.\<close>

definition functions_client :: client where
  "functions_client n url endpoint =
     Inr (JObj [(''elements'', JList
        [JObj [(''id'', JInt 1),
               (''name'', JObj [(''localized'', JObj [(''en_US'', JStr ''Accounting'')])])]])])"

text \<open>A titles response that has title 1 only.\<close>

definition titles_client :: client where
  "titles_client n url endpoint =
     Inr (JObj [(''results'', JObj
        [(''1'', JObj [(''name'', JObj [(''localized'', JObj [(''en_US'', JStr ''Engineer'')])])])])])"

text \<open>
  A titles client whose first request is answered with the names of the first 150 of the
  two hundred codes and whose later requests fail.
\<close>

definition title_of :: "string \<Rightarrow> json" where
  "title_of c = JStr (''Title '' @ c)"

definition titles_client200 :: client where
  "titles_client200 n url endpoint =
     (if n = 0
      then Inr (JObj [(''results'', JObj (map (\<lambda>c. (c, JObj [(''name'', JObj [(''default'', title_of c)])]))
                                          (take 150 codes200)))])
      else Inl (Raise ClientError ''503 Service Unavailable''))"

text \<open>A titles response whose result for title 1 has a string where the name dict should be.\<close>

definition broken_titles_client :: client where
  "broken_titles_client n url endpoint =
     Inr (JObj [(''results'', JObj [(''1'', JObj [(''name'', JStr ''Engineer'')])])])"

text \<open>
  Analytics elements of one day, and two windows of pages: campaign 7 comes twice, with
  other fields the second time; the job functions 1 and 2 come once each.
\<close>

definition analytics_element :: "string \<Rightarrow> (string \<times> json) list \<Rightarrow> json" where
  "analytics_element urn metrics =
     JObj ([(''dateRange'', JObj [(''start'', JObj [(''year'', JInt 2024), (''month'', JInt 1), (''day'', JInt 1)]),
                                  (''end'', JObj [(''year'', JInt 2024), (''month'', JInt 1), (''day'', JInt 2)])]),
            (''pivotValues'', JList [JStr urn])] @ metrics)"

definition campaign_pages :: "json list" where
  "campaign_pages =
     [JList [analytics_element ''urn:li:sponsoredCampaign:7'' [(''clicks'', JInt 3), (''likes'', JInt 1)],
             analytics_element ''urn:li:sponsoredCampaign:8'' [(''clicks'', JInt 5)]],
      JList [analytics_element ''urn:li:sponsoredCampaign:7'' [(''impressions'', JInt 30), (''clicks'', JInt 4)]]]"

definition function_pages :: "json list" where
  "function_pages =
     [JList [analytics_element ''urn:li:function:1'' [(''clicks'', JInt 3)],
             analytics_element ''urn:li:function:2'' [(''clicks'', JInt 5)]]]"

text \<open>The keyword arguments of a video ads sync, and the error of a denied request.\<close>

definition video_kwargs :: "(string \<times> json) list" where
  "video_kwargs =
     [(''state'', JObj [(''bookmarks'', JObj [(''accounts'', JStr ''2024-03-01T00:00:00Z''),
                                            (''video_ads'', JStr ''2024-02-01T00:00:00Z'')])]),
      (''page_size'', JInt 100),
      (''start_date'', JStr ''2023-01-01T00:00:00Z''),
      (''parent_id'', JInt 7)]"

definition denied :: py_error where
  "denied = Raise ClientError
     ''HTTP-error-code: 403, Error: Not enough permissions to access: partnerApiPostsExternal.FINDER-dscAdAccount''"

text \<open>
  A Singer environment that transforms a record to itself, knows four instants and writes
  without error; four account records, the last without a modification time.
\<close>

definition example_instants :: "(string \<times> int) list" where
  "example_instants =
     [(''2024-01-01T00:00:00Z'', 1704067200), (''2024-01-15T00:00:00Z'', 1705276800),
      (''2024-01-15T00:00:01Z'', 1705276801), (''2024-02-01T00:00:00Z'', 1706745600)]"

definition example_singer :: singer where
  "example_singer =
     \<lparr>stream_schema = None,
      transform = Inr,
      strptime_to_utc = (\<lambda>v. case v of
          JStr s \<Rightarrow> (case map_of example_instants s of
                       None \<Rightarrow> Inl (Raise ValueError ''Unknown string format'')
                     | Some t \<Rightarrow> Inr t)
        | _ \<Rightarrow> Inl (Raise TypeError ''Parser must be a string'')),
      write_error = (\<lambda>record. None)\<rparr>"

definition account_record :: "int \<Rightarrow> (string \<times> json) list \<Rightarrow> json" where
  "account_record n others = JObj ((''id'', JInt n) # others)"

definition account_records :: "json list" where
  "account_records =
     [account_record 1 [(''last_modified_time'', JStr ''2024-01-01T00:00:00Z'')],
      account_record 2 [(''last_modified_time'', JStr ''2024-01-15T00:00:00Z'')],
      account_record 3 [(''last_modified_time'', JStr ''2024-02-01T00:00:00Z'')],
      account_record 4 []]"

section \<open>Properties of the field chunking\<close>

lemma py_range_40_18: "py_range 40 18 = [0, 18, 36]"
  by (simp add: py_range_def upt_rec)

lemma append_required_has_both:
  "''dateRange'' \<in> set (append_required c) \<and> ''pivotValues'' \<in> set (append_required c)"
  by (simp add: append_required_def)

lemma append_required_first: "append_required [''dateRange'', ''pivotValues''] = [''dateRange'', ''pivotValues'']"
  by (simp add: append_required_def)

text \<open>
  C3. A field list of 40 fs is split, at the cap of 18, into exactly three chunks of
  18, 18 and 4 fs taken in order from the list; the request chunks are the leading
  chunk, exactly \<open>dateRange\<close> and \<open>pivotValues\<close>, followed by these three, and after the
  append step every chunk holds both \<open>dateRange\<close> and \<open>pivotValues\<close>.
\<close>

theorem chunking_40_fields:
  assumes "length fs = 40"
  shows "split_into_chunks fs MAX_CHUNK_LENGTH =
           Inr [take 18 fs, take 18 (drop 18 fs), drop 36 fs]
       \<and> map length [take 18 fs, take 18 (drop 18 fs), drop 36 fs] = [18, 18, 4]
       \<and> take 18 fs @ take 18 (drop 18 fs) @ drop 36 fs = fs
       \<and> analytics_chunks fs =
           Inr [[''dateRange'', ''pivotValues''],
                append_required (take 18 fs),
                append_required (take 18 (drop 18 fs)),
                append_required (drop 36 fs)]
       \<and> (\<exists>cs. analytics_chunks fs = Inr cs \<and> list_all (\<lambda>c. ''dateRange'' \<in> set c \<and> ''pivotValues'' \<in> set c) cs)"
proof -
  have split: "split_into_chunks fs MAX_CHUNK_LENGTH =
           Inr [take 18 fs, take 18 (drop 18 fs), drop 36 fs]"
    using assms by (simp add: split_into_chunks_def MAX_CHUNK_LENGTH_def py_range_40_18)
  have lens: "map length [take 18 fs, take 18 (drop 18 fs), drop 36 fs] = [18, 18, 4]"
    using assms by simp
  have cat: "take 18 fs @ take 18 (drop 18 fs) @ drop 36 fs = fs"
  proof -
    have "take 18 (drop 18 fs) @ drop 36 fs = drop 18 fs"
      by (metis append_take_drop_id drop_drop numeral_Bit0 numeral_Bit1 add.commute
            numeral_plus_numeral semiring_norm(2) semiring_norm(3) semiring_norm(6) semiring_norm(7))
    then show ?thesis by simp
  qed
  have chunks: "analytics_chunks fs =
           Inr [[''dateRange'', ''pivotValues''],
                append_required (take 18 fs),
                append_required (take 18 (drop 18 fs)),
                append_required (drop 36 fs)]"
    by (simp add: analytics_chunks_def split first_chunk_def append_required_first)
  have "list_all (\<lambda>c. ''dateRange'' \<in> set c \<and> ''pivotValues'' \<in> set c)
          [[''dateRange'', ''pivotValues''],
                append_required (take 18 fs),
                append_required (take 18 (drop 18 fs)),
                append_required (drop 36 fs)]"
    using append_required_has_both by simp
  with split lens cat chunks show ?thesis by simp
qed

theorem chunking_40_fields_witness:
  "length example_fields = 40
   \<and> split_into_chunks example_fields MAX_CHUNK_LENGTH =
       Inr [take 18 example_fields, take 18 (drop 18 example_fields), drop 36 example_fields]
   \<and> analytics_chunks example_fields =
       Inr [[''dateRange'', ''pivotValues''],
            take 18 example_fields @ [''dateRange'', ''pivotValues''],
            take 18 (drop 18 example_fields) @ [''dateRange'', ''pivotValues''],
            drop 36 example_fields @ [''dateRange'', ''pivotValues'']]"
proof -
  have len: "length example_fields = 40"
    by (simp add: example_fields_def)
  have a: "append_required (take 18 example_fields) = take 18 example_fields @ [''dateRange'', ''pivotValues'']"
    by (simp add: append_required_def example_fields_def)
  have b: "append_required (take 18 (drop 18 example_fields)) =
             take 18 (drop 18 example_fields) @ [''dateRange'', ''pivotValues'']"
    by (simp add: append_required_def example_fields_def)
  have c: "append_required (drop 36 example_fields) = drop 36 example_fields @ [''dateRange'', ''pivotValues'']"
    by (simp add: append_required_def example_fields_def)
  from chunking_40_fields [OF len] len a b c show ?thesis by simp
qed

section \<open>Properties of the pagination cursor\<close>

lemma starts_with_append:
  "length p \<le> length a \<Longrightarrow> starts_with (a @ b) p = starts_with a p"
  by (induction a p rule: starts_with.induct) auto

lemma starts_with_self: "starts_with (p @ r) p"
  by (induction p) auto

lemma contains_str_at: "contains_str (pre @ p @ r) p"
proof (induction pre)
  case Nil
  show ?case by (cases "p @ r") (use starts_with_self [of p r] in auto)
next
  case (Cons c pre)
  then show ?case by simp
qed

lemma re_sub_identity:
  "\<not> contains_str s ''pageToken='' \<Longrightarrow> re_sub_pageToken repl s = s"
  by (induction s) auto

lemma re_sub_skip:
  "\<not> contains_str (pre @ ''pageToken'') ''pageToken=''
   \<Longrightarrow> re_sub_pageToken repl (pre @ ''pageToken='' @ rest) = pre @ re_sub_pageToken repl (''pageToken='' @ rest)"
proof (induction pre)
  case Nil
  show ?case by simp
next
  case (Cons c pre)
  have n0: "\<not> starts_with ((c # pre) @ ''pageToken'') ''pageToken=''"
    and n1: "\<not> contains_str (pre @ ''pageToken'') ''pageToken=''"
    using Cons.prems by auto
  have "starts_with (((c # pre) @ ''pageToken'') @ (''='' @ rest)) ''pageToken=''
          = starts_with ((c # pre) @ ''pageToken'') ''pageToken=''"
    by (rule starts_with_append) simp
  with n0 have "\<not> starts_with (c # (pre @ ''pageToken='' @ rest)) ''pageToken=''"
    by simp
  then have "re_sub_pageToken repl ((c # pre) @ ''pageToken='' @ rest)
               = c # re_sub_pageToken repl (pre @ ''pageToken='' @ rest)"
    by (simp del: starts_with.simps)
  with Cons.IH [OF n1] show ?case by simp
qed

lemma re_sub_match:
  assumes "old \<noteq> []" and "CHR ''&'' \<notin> set old" and "post = [] \<or> hd post = CHR ''&''"
  shows "re_sub_pageToken repl (''pageToken='' @ old @ post)
           = repl (''pageToken='' @ old) @ re_sub_pageToken repl post"
proof -
  have tk: "takeWhile (\<lambda>x. x \<noteq> CHR ''&'') (old @ post) = old"
  proof -
    have "takeWhile (\<lambda>x. x \<noteq> CHR ''&'') post = []"
      using assms(3) by (cases post) auto
    moreover have "takeWhile (\<lambda>x. x \<noteq> CHR ''&'') (old @ post) = old @ takeWhile (\<lambda>x. x \<noteq> CHR ''&'') post"
      using assms(2) by (intro takeWhile_append2) auto
    ultimately show ?thesis by simp
  qed
  have dk: "dropWhile (\<lambda>x. x \<noteq> CHR ''&'') (old @ post) = post"
  proof -
    have "dropWhile (\<lambda>x. x \<noteq> CHR ''&'') post = post"
      using assms(3) by (cases post) auto
    moreover have "dropWhile (\<lambda>x. x \<noteq> CHR ''&'') (old @ post) = dropWhile (\<lambda>x. x \<noteq> CHR ''&'') post"
      using assms(2) by (intro dropWhile_append2) auto
    ultimately show ?thesis by simp
  qed
  show ?thesis using tk dk assms(1) by simp
qed

lemma links_loop_others:
  "list_all other_link before \<Longrightarrow> links_loop L cur (before @ rest) = links_loop L cur rest"
  by (induction before) (auto simp: other_link_def split: json.splits option.splits)

lemma in_cursor_streams:
  "stream_name \<in> set CURSOR_BASED_PAGINATION_STREAMS \<longleftrightarrow>
     stream_name = ''accounts'' \<or> stream_name = ''campaign_groups'' \<or>
     stream_name = ''campaigns'' \<or> stream_name = ''creatives''"
  by (auto simp: CURSOR_BASED_PAGINATION_STREAMS_def)

lemma token_appended:
  assumes "stream_name \<in> set CURSOR_BASED_PAGINATION_STREAMS"
    and "map_of d ''metadata'' = Some (JObj md)" and "map_of md ''nextPageToken'' = Some tok"
    and "truthy tok" and "\<not> contains_str url ''pageToken=''"
  shows "get_next_url L stream_name url (JObj d) = Inr (Some (url @ ''&pageToken='' @ py_str L tok))"
  using assms by (simp add: get_next_url_def)

lemma token_replaced:
  assumes "stream_name \<in> set CURSOR_BASED_PAGINATION_STREAMS"
    and "map_of d ''metadata'' = Some (JObj md)" and "map_of md ''nextPageToken'' = Some tok"
    and "truthy tok"
    and "re_template L (''pageToken='' @ py_str L tok) = Inr (\<lambda>matched. ''pageToken='' @ py_str L tok)"
    and "\<not> contains_str (pre @ ''pageToken'') ''pageToken=''"
    and "old \<noteq> []" and "CHR ''&'' \<notin> set old" and "post = [] \<or> hd post = CHR ''&''"
    and "\<not> contains_str post ''pageToken=''"
  shows "get_next_url L stream_name (pre @ ''pageToken='' @ old @ post) (JObj d)
           = Inr (Some (pre @ ''pageToken='' @ py_str L tok @ post))"
proof -
  have c: "contains_str (pre @ ''pageToken='' @ old @ post) ''pageToken=''"
    by (rule contains_str_at)
  have "re_sub_pageToken (\<lambda>matched. ''pageToken='' @ py_str L tok) (pre @ ''pageToken='' @ old @ post)
          = pre @ re_sub_pageToken (\<lambda>matched. ''pageToken='' @ py_str L tok) (''pageToken='' @ old @ post)"
    using assms(6) by (rule re_sub_skip)
  also have "re_sub_pageToken (\<lambda>matched. ''pageToken='' @ py_str L tok) (''pageToken='' @ old @ post)
          = (''pageToken='' @ py_str L tok) @ re_sub_pageToken (\<lambda>matched. ''pageToken='' @ py_str L tok) post"
    using assms(7,8,9) by (rule re_sub_match)
  also have "re_sub_pageToken (\<lambda>matched. ''pageToken='' @ py_str L tok) post = post"
    using assms(10) by (rule re_sub_identity)
  finally have r: "re_sub_pageToken (\<lambda>matched. ''pageToken='' @ py_str L tok) (pre @ ''pageToken='' @ old @ post)
          = pre @ ''pageToken='' @ py_str L tok @ post"
    by simp
  show ?thesis
    using assms(1-5) c r by (simp add: get_next_url_def del: re_sub_pageToken.simps contains_str.simps)
qed

lemma token_absent:
  assumes "stream_name \<in> set CURSOR_BASED_PAGINATION_STREAMS"
    and "map_of d ''metadata'' = None \<or> (map_of d ''metadata'' = Some (JObj md) \<and> map_of md ''nextPageToken'' = None)"
  shows "get_next_url L stream_name url (JObj d) = Inr None"
  using assms by (auto simp: get_next_url_def)

lemma link_verbatim:
  assumes "stream_name \<notin> set CURSOR_BASED_PAGINATION_STREAMS"
    and "map_of d ''paging'' = Some (JObj pg)"
    and "map_of pg ''links'' = Some (JList (before @ JObj link # after))"
    and "list_all other_link before"
    and "map_of link ''rel'' = Some (JStr ''next'')" and "map_of link ''href'' = Some (JStr href)"
    and "contains_str href ''rest/creatives'' \<or> contains_str href ''rest/posts''"
  shows "get_next_url L stream_name url (JObj d) = Inr (Some (API_HOST @ href))"
proof -
  have "href \<noteq> []" using assms(7) by auto
  then have "links_loop L None (JObj link # after) = Inr (Some (API_HOST @ href))"
    using assms(5,6,7) by auto
  then show ?thesis
    using assms(1-4) by (simp add: get_next_url_def links_loop_others del: links_loop.simps)
qed

lemma link_decoded:
  assumes "stream_name \<notin> set CURSOR_BASED_PAGINATION_STREAMS"
    and "map_of d ''paging'' = Some (JObj pg)"
    and "map_of pg ''links'' = Some (JList (before @ JObj link # after))"
    and "list_all other_link before" and "list_all other_link after"
    and "map_of link ''rel'' = Some (JStr ''next'')" and "map_of link ''href'' = Some (JStr href)"
    and "href \<noteq> []"
    and "\<not> contains_str href ''rest/creatives''" and "\<not> contains_str href ''rest/posts''"
    and "unquote L (JStr href) = Inr (JStr decoded)"
  shows "get_next_url L stream_name url (JObj d) = Inr (Some (API_HOST @ decoded))"
proof -
  have "links_loop L None (JObj link # after) = links_loop L (Some (API_HOST @ decoded)) (after @ [])"
    using assms(6-11) by simp
  also have "\<dots> = Inr (Some (API_HOST @ decoded))"
    using assms(5) by (simp add: links_loop_others del: append_Nil2)
  finally show ?thesis
    using assms(1-4) by (simp add: get_next_url_def links_loop_others del: links_loop.simps)
qed

lemma link_absent:
  assumes "stream_name \<notin> set CURSOR_BASED_PAGINATION_STREAMS"
    and "map_of d ''paging'' = None \<or>
         (map_of d ''paging'' = Some (JObj pg) \<and>
            (map_of pg ''links'' = None \<or>
             (map_of pg ''links'' = Some (JList ls) \<and> list_all other_link ls)))"
  shows "get_next_url L stream_name url (JObj d) = Inr None"
proof -
  have "list_all other_link ls \<Longrightarrow> links_loop L None (ls @ []) = Inr None"
    by (simp add: links_loop_others del: append_Nil2)
  then show ?thesis
    using assms by (auto simp: get_next_url_def)
qed

text \<open>
  C8. For a stream of the token-based list: a present next-page token is appended as the
  \<open>pageToken\<close> parameter when the URL has none, and replaces the value of the \<open>pageToken\<close>
  parameter the URL has; with no token there is no next URL. For every other stream: the
  href of the \<open>next\<close> link, prefixed with the API host, is the next URL, verbatim when it
  names the creatives or posts endpoints and percent-decoded otherwise; with no \<open>next\<close>
  link there is no next URL.
\<close>

theorem get_next_url_cases:
  shows "(stream_name \<in> set CURSOR_BASED_PAGINATION_STREAMS \<and>
          map_of d ''metadata'' = Some (JObj md) \<and> map_of md ''nextPageToken'' = Some tok \<and>
          truthy tok \<and> \<not> contains_str url ''pageToken=''
          \<longrightarrow> get_next_url L stream_name url (JObj d)
                = Inr (Some (url @ ''&pageToken='' @ py_str L tok)))
       \<and> (stream_name \<in> set CURSOR_BASED_PAGINATION_STREAMS \<and>
          map_of d ''metadata'' = Some (JObj md) \<and> map_of md ''nextPageToken'' = Some tok \<and>
          truthy tok \<and>
          re_template L (''pageToken='' @ py_str L tok) = Inr (\<lambda>matched. ''pageToken='' @ py_str L tok) \<and>
          \<not> contains_str (pre @ ''pageToken'') ''pageToken='' \<and>
          old \<noteq> [] \<and> CHR ''&'' \<notin> set old \<and> (post = [] \<or> hd post = CHR ''&'') \<and>
          \<not> contains_str post ''pageToken=''
          \<longrightarrow> get_next_url L stream_name (pre @ ''pageToken='' @ old @ post) (JObj d)
                = Inr (Some (pre @ ''pageToken='' @ py_str L tok @ post)))
       \<and> (stream_name \<in> set CURSOR_BASED_PAGINATION_STREAMS \<and>
          (map_of d ''metadata'' = None \<or>
           (map_of d ''metadata'' = Some (JObj md) \<and>
              (map_of md ''nextPageToken'' = None \<or> map_of md ''nextPageToken'' = Some JNull)))
          \<longrightarrow> get_next_url L stream_name url (JObj d) = Inr None)
       \<and> (stream_name \<notin> set CURSOR_BASED_PAGINATION_STREAMS \<and>
          map_of d ''paging'' = Some (JObj pg) \<and>
          map_of pg ''links'' = Some (JList (before @ JObj link # after)) \<and>
          list_all other_link before \<and>
          map_of link ''rel'' = Some (JStr ''next'') \<and> map_of link ''href'' = Some (JStr href) \<and>
          (contains_str href ''rest/creatives'' \<or> contains_str href ''rest/posts'')
          \<longrightarrow> get_next_url L stream_name url (JObj d) = Inr (Some (API_HOST @ href)))
       \<and> (stream_name \<notin> set CURSOR_BASED_PAGINATION_STREAMS \<and>
          map_of d ''paging'' = Some (JObj pg) \<and>
          map_of pg ''links'' = Some (JList (before @ JObj link # after)) \<and>
          list_all other_link before \<and> list_all other_link after \<and>
          map_of link ''rel'' = Some (JStr ''next'') \<and> map_of link ''href'' = Some (JStr href) \<and>
          href \<noteq> [] \<and>
          \<not> contains_str href ''rest/creatives'' \<and> \<not> contains_str href ''rest/posts'' \<and>
          unquote L (JStr href) = Inr (JStr decoded)
          \<longrightarrow> get_next_url L stream_name url (JObj d) = Inr (Some (API_HOST @ decoded)))
       \<and> (stream_name \<notin> set CURSOR_BASED_PAGINATION_STREAMS \<and>
          (map_of d ''paging'' = None \<or>
           (map_of d ''paging'' = Some (JObj pg) \<and>
              (map_of pg ''links'' = None \<or>
               (map_of pg ''links'' = Some (JList ls) \<and> list_all other_link ls))))
          \<longrightarrow> get_next_url L stream_name url (JObj d) = Inr None)"
proof (intro conjI impI)
  assume "stream_name \<in> set CURSOR_BASED_PAGINATION_STREAMS \<and>
          map_of d ''metadata'' = Some (JObj md) \<and> map_of md ''nextPageToken'' = Some tok \<and>
          truthy tok \<and> \<not> contains_str url ''pageToken=''"
  then show "get_next_url L stream_name url (JObj d) = Inr (Some (url @ ''&pageToken='' @ py_str L tok))"
    by (intro token_appended) auto
next
  assume "stream_name \<in> set CURSOR_BASED_PAGINATION_STREAMS \<and>
          map_of d ''metadata'' = Some (JObj md) \<and> map_of md ''nextPageToken'' = Some tok \<and>
          truthy tok \<and>
          re_template L (''pageToken='' @ py_str L tok) = Inr (\<lambda>matched. ''pageToken='' @ py_str L tok) \<and>
          \<not> contains_str (pre @ ''pageToken'') ''pageToken='' \<and>
          old \<noteq> [] \<and> CHR ''&'' \<notin> set old \<and> (post = [] \<or> hd post = CHR ''&'') \<and>
          \<not> contains_str post ''pageToken=''"
  then show "get_next_url L stream_name (pre @ ''pageToken='' @ old @ post) (JObj d)
                = Inr (Some (pre @ ''pageToken='' @ py_str L tok @ post))"
    by (intro token_replaced [where md = md]) blast+
next
  assume "stream_name \<in> set CURSOR_BASED_PAGINATION_STREAMS \<and>
          (map_of d ''metadata'' = None \<or>
           (map_of d ''metadata'' = Some (JObj md) \<and>
              (map_of md ''nextPageToken'' = None \<or> map_of md ''nextPageToken'' = Some JNull)))"
  then show "get_next_url L stream_name url (JObj d) = Inr None"
    by (auto simp: get_next_url_def)
next
  assume "stream_name \<notin> set CURSOR_BASED_PAGINATION_STREAMS \<and>
          map_of d ''paging'' = Some (JObj pg) \<and>
          map_of pg ''links'' = Some (JList (before @ JObj link # after)) \<and>
          list_all other_link before \<and>
          map_of link ''rel'' = Some (JStr ''next'') \<and> map_of link ''href'' = Some (JStr href) \<and>
          (contains_str href ''rest/creatives'' \<or> contains_str href ''rest/posts'')"
  then show "get_next_url L stream_name url (JObj d) = Inr (Some (API_HOST @ href))"
    by (intro link_verbatim [where pg = pg and before = before and link = link and after = after]) blast+
next
  assume "stream_name \<notin> set CURSOR_BASED_PAGINATION_STREAMS \<and>
          map_of d ''paging'' = Some (JObj pg) \<and>
          map_of pg ''links'' = Some (JList (before @ JObj link # after)) \<and>
          list_all other_link before \<and> list_all other_link after \<and>
          map_of link ''rel'' = Some (JStr ''next'') \<and> map_of link ''href'' = Some (JStr href) \<and>
          href \<noteq> [] \<and>
          \<not> contains_str href ''rest/creatives'' \<and> \<not> contains_str href ''rest/posts'' \<and>
          unquote L (JStr href) = Inr (JStr decoded)"
  then show "get_next_url L stream_name url (JObj d) = Inr (Some (API_HOST @ decoded))"
    by (intro link_decoded [where pg = pg and before = before and link = link and after = after and href = href]) blast+
next
  assume "stream_name \<notin> set CURSOR_BASED_PAGINATION_STREAMS \<and>
          (map_of d ''paging'' = None \<or>
           (map_of d ''paging'' = Some (JObj pg) \<and>
              (map_of pg ''links'' = None \<or>
               (map_of pg ''links'' = Some (JList ls) \<and> list_all other_link ls))))"
  then show "get_next_url L stream_name url (JObj d) = Inr None"
    by (intro link_absent [where pg = pg and ls = ls]) blast+
qed

theorem get_next_url_cases_witness:
  "get_next_url example_lib ''accounts'' ''https://api.linkedin.com/rest/adAccounts?pageSize=1000&q=search''
       (JObj [(''elements'', JList []), (''metadata'', JObj [(''nextPageToken'', JStr ''DgGerr1iVQ'')])])
     = Inr (Some ''https://api.linkedin.com/rest/adAccounts?pageSize=1000&q=search&pageToken=DgGerr1iVQ'')
   \<and> get_next_url example_lib ''campaigns''
       (''https://api.linkedin.com/rest/adAccounts/1/adCampaigns?pageSize=100&'' @ ''pageToken='' @ ''DgGerr1iVQ'' @ ''&q=search'')
       (JObj [(''metadata'', JObj [(''nextPageToken'', JStr ''Xz9'')])])
     = Inr (Some ''https://api.linkedin.com/rest/adAccounts/1/adCampaigns?pageSize=100&pageToken=Xz9&q=search'')
   \<and> get_next_url example_lib ''creatives'' ''https://api.linkedin.com/rest/adAccounts/1/creatives?pageSize=100''
       (JObj [(''elements'', JList []), (''metadata'', JObj [])])
     = Inr None
   \<and> get_next_url example_lib ''video_ads'' ''https://api.linkedin.com/rest/posts?start=0''
       (JObj [(''paging'', JObj [(''links'', JList
          [JObj [(''rel'', JStr ''prev''), (''href'', JStr ''/rest/posts?start=0'')],
           JObj [(''rel'', JStr ''next''), (''href'', JStr ''/rest/posts?dscAdAccount=urn%3Ali%3AsponsoredAccount%3A1&start=100'')]])])])
     = Inr (Some ''https://api.linkedin.com/rest/posts?dscAdAccount=urn%3Ali%3AsponsoredAccount%3A1&start=100'')
   \<and> get_next_url example_lib ''account_users'' ''https://api.linkedin.com/rest/adAccountUsers?start=0''
       (JObj [(''paging'', JObj [(''links'', JList
          [JObj [(''rel'', JStr ''next''), (''href'', JStr ''/rest/adAccountUsers?accounts=urn%3Ali%3AsponsoredAccount%3A1&start=100'')]])])])
     = Inr (Some ''https://api.linkedin.com/rest/adAccountUsers?accounts=urn:li:sponsoredAccount:1&start=100'')
   \<and> get_next_url example_lib ''account_users'' ''https://api.linkedin.com/rest/adAccountUsers?start=100''
       (JObj [(''paging'', JObj [(''links'', JList
          [JObj [(''rel'', JStr ''prev''), (''href'', JStr ''/rest/adAccountUsers?start=0'')]])])])
     = Inr None"
proof (intro conjI)
  show "get_next_url example_lib ''accounts'' ''https://api.linkedin.com/rest/adAccounts?pageSize=1000&q=search''
       (JObj [(''elements'', JList []), (''metadata'', JObj [(''nextPageToken'', JStr ''DgGerr1iVQ'')])])
     = Inr (Some ''https://api.linkedin.com/rest/adAccounts?pageSize=1000&q=search&pageToken=DgGerr1iVQ'')"
    using get_next_url_cases [where L = example_lib and stream_name = "''accounts''"
        and url = "''https://api.linkedin.com/rest/adAccounts?pageSize=1000&q=search''"
        and d = "[(''elements'', JList []), (''metadata'', JObj [(''nextPageToken'', JStr ''DgGerr1iVQ'')])]"
        and md = "[(''nextPageToken'', JStr ''DgGerr1iVQ'')]" and tok = "JStr ''DgGerr1iVQ''",
        THEN conjunct1]
    by (simp add: CURSOR_BASED_PAGINATION_STREAMS_def)
next
  have t: "re_template example_lib (''pageToken='' @ py_str example_lib (JStr ''Xz9''))
             = Inr (\<lambda>matched. ''pageToken='' @ py_str example_lib (JStr ''Xz9''))"
    by (simp add: example_lib_def)
  show "get_next_url example_lib ''campaigns''
       (''https://api.linkedin.com/rest/adAccounts/1/adCampaigns?pageSize=100&'' @ ''pageToken='' @ ''DgGerr1iVQ'' @ ''&q=search'')
       (JObj [(''metadata'', JObj [(''nextPageToken'', JStr ''Xz9'')])])
     = Inr (Some ''https://api.linkedin.com/rest/adAccounts/1/adCampaigns?pageSize=100&pageToken=Xz9&q=search'')"
    using t get_next_url_cases [where L = example_lib and stream_name = "''campaigns''"
        and pre = "''https://api.linkedin.com/rest/adAccounts/1/adCampaigns?pageSize=100&''"
        and old = "''DgGerr1iVQ''" and post = "''&q=search''"
        and d = "[(''metadata'', JObj [(''nextPageToken'', JStr ''Xz9'')])]"
        and md = "[(''nextPageToken'', JStr ''Xz9'')]" and tok = "JStr ''Xz9''",
        THEN conjunct2, THEN conjunct1]
    by (simp add: CURSOR_BASED_PAGINATION_STREAMS_def del: re_sub_pageToken.simps)
next
  show "get_next_url example_lib ''creatives'' ''https://api.linkedin.com/rest/adAccounts/1/creatives?pageSize=100''
       (JObj [(''elements'', JList []), (''metadata'', JObj [])])
     = Inr None"
    using get_next_url_cases [where L = example_lib and stream_name = "''creatives''"
        and url = "''https://api.linkedin.com/rest/adAccounts/1/creatives?pageSize=100''"
        and d = "[(''elements'', JList []), (''metadata'', JObj [])]" and md = "[]",
        THEN conjunct2, THEN conjunct2, THEN conjunct1]
    by (simp add: CURSOR_BASED_PAGINATION_STREAMS_def)
next
  show "get_next_url example_lib ''video_ads'' ''https://api.linkedin.com/rest/posts?start=0''
       (JObj [(''paging'', JObj [(''links'', JList
          [JObj [(''rel'', JStr ''prev''), (''href'', JStr ''/rest/posts?start=0'')],
           JObj [(''rel'', JStr ''next''), (''href'', JStr ''/rest/posts?dscAdAccount=urn%3Ali%3AsponsoredAccount%3A1&start=100'')]])])])
     = Inr (Some ''https://api.linkedin.com/rest/posts?dscAdAccount=urn%3Ali%3AsponsoredAccount%3A1&start=100'')"
    using get_next_url_cases [where L = example_lib and stream_name = "''video_ads''"
        and url = "''https://api.linkedin.com/rest/posts?start=0''"
        and d = "[(''paging'', JObj [(''links'', JList
          [JObj [(''rel'', JStr ''prev''), (''href'', JStr ''/rest/posts?start=0'')],
           JObj [(''rel'', JStr ''next''), (''href'', JStr ''/rest/posts?dscAdAccount=urn%3Ali%3AsponsoredAccount%3A1&start=100'')]])])]"
        and pg = "[(''links'', JList
          [JObj [(''rel'', JStr ''prev''), (''href'', JStr ''/rest/posts?start=0'')],
           JObj [(''rel'', JStr ''next''), (''href'', JStr ''/rest/posts?dscAdAccount=urn%3Ali%3AsponsoredAccount%3A1&start=100'')]])]"
        and before = "[JObj [(''rel'', JStr ''prev''), (''href'', JStr ''/rest/posts?start=0'')]]"
        and link = "[(''rel'', JStr ''next''), (''href'', JStr ''/rest/posts?dscAdAccount=urn%3Ali%3AsponsoredAccount%3A1&start=100'')]"
        and after = "[]"
        and href = "''/rest/posts?dscAdAccount=urn%3Ali%3AsponsoredAccount%3A1&start=100''",
        THEN conjunct2, THEN conjunct2, THEN conjunct2, THEN conjunct1]
    by (simp add: CURSOR_BASED_PAGINATION_STREAMS_def other_link_def API_HOST_def del: links_loop.simps)
next
  have u: "unquote example_lib (JStr ''/rest/adAccountUsers?accounts=urn%3Ali%3AsponsoredAccount%3A1&start=100'')
             = Inr (JStr ''/rest/adAccountUsers?accounts=urn:li:sponsoredAccount:1&start=100'')"
    by code_simp
  show "get_next_url example_lib ''account_users'' ''https://api.linkedin.com/rest/adAccountUsers?start=0''
       (JObj [(''paging'', JObj [(''links'', JList
          [JObj [(''rel'', JStr ''next''), (''href'', JStr ''/rest/adAccountUsers?accounts=urn%3Ali%3AsponsoredAccount%3A1&start=100'')]])])])
     = Inr (Some ''https://api.linkedin.com/rest/adAccountUsers?accounts=urn:li:sponsoredAccount:1&start=100'')"
    using u get_next_url_cases [where L = example_lib and stream_name = "''account_users''"
        and url = "''https://api.linkedin.com/rest/adAccountUsers?start=0''"
        and d = "[(''paging'', JObj [(''links'', JList
          [JObj [(''rel'', JStr ''next''), (''href'', JStr ''/rest/adAccountUsers?accounts=urn%3Ali%3AsponsoredAccount%3A1&start=100'')]])])]"
        and pg = "[(''links'', JList
          [JObj [(''rel'', JStr ''next''), (''href'', JStr ''/rest/adAccountUsers?accounts=urn%3Ali%3AsponsoredAccount%3A1&start=100'')]])]"
        and before = "[]"
        and link = "[(''rel'', JStr ''next''), (''href'', JStr ''/rest/adAccountUsers?accounts=urn%3Ali%3AsponsoredAccount%3A1&start=100'')]"
        and after = "[]"
        and href = "''/rest/adAccountUsers?accounts=urn%3Ali%3AsponsoredAccount%3A1&start=100''"
        and decoded = "''/rest/adAccountUsers?accounts=urn:li:sponsoredAccount:1&start=100''",
        THEN conjunct2, THEN conjunct2, THEN conjunct2, THEN conjunct2, THEN conjunct1]
    by (simp add: CURSOR_BASED_PAGINATION_STREAMS_def other_link_def API_HOST_def del: links_loop.simps)
next
  show "get_next_url example_lib ''account_users'' ''https://api.linkedin.com/rest/adAccountUsers?start=100''
       (JObj [(''paging'', JObj [(''links'', JList
          [JObj [(''rel'', JStr ''prev''), (''href'', JStr ''/rest/adAccountUsers?start=0'')]])])])
     = Inr None"
    using get_next_url_cases [where L = example_lib and stream_name = "''account_users''"
        and url = "''https://api.linkedin.com/rest/adAccountUsers?start=100''"
        and d = "[(''paging'', JObj [(''links'', JList
          [JObj [(''rel'', JStr ''prev''), (''href'', JStr ''/rest/adAccountUsers?start=0'')]])])]"
        and pg = "[(''links'', JList
          [JObj [(''rel'', JStr ''prev''), (''href'', JStr ''/rest/adAccountUsers?start=0'')]])]"
        and ls = "[JObj [(''rel'', JStr ''prev''), (''href'', JStr ''/rest/adAccountUsers?start=0'')]]",
        THEN conjunct2, THEN conjunct2, THEN conjunct2, THEN conjunct2, THEN conjunct2]
    by (simp add: CURSOR_BASED_PAGINATION_STREAMS_def other_link_def)
qed

section \<open>Properties of the window advance\<close>

lemma seq_Inr_iff: "seq m f = Inr y \<longleftrightarrow> (\<exists>x. m = Inr x \<and> f x = Inr y)"
  by (cases m) auto

lemma map_of_dict_update_window:
  "map_of (dict_update params
             [(''dateRange.start.day'', a), (''dateRange.start.month'', b), (''dateRange.start.year'', c),
              (''dateRange.end.day'', d), (''dateRange.end.month'', e), (''dateRange.end.year'', f)])
     = (map_of params)(''dateRange.start.day'' \<mapsto> a, ''dateRange.start.month'' \<mapsto> b,
          ''dateRange.start.year'' \<mapsto> c, ''dateRange.end.day'' \<mapsto> d, ''dateRange.end.month'' \<mapsto> e,
          ''dateRange.end.year'' \<mapsto> f)"
  by (simp add: dict_update_def update_conv')

text \<open>
  C4. When the parameters hold the end date \<open>old_end\<close> with \<open>old_end \<le> today\<close>, the window
  sizes are positive and the moved date is a date, \<open>shift_sync_window\<close> returns
  \<open>old_end\<close> as the new start and \<open>min today (old_end + size)\<close> as the new end, the size being
  the forced one when given; the new parameters hold the two dates, and
  new start \<open>\<le>\<close> new end \<open>\<le>\<close> today.
\<close>

theorem shift_sync_window_advance:
  assumes "params_end params = Inr old_end"
    and "old_end \<le> today"
    and "0 < date_window_size"
    and "forced_window_size = None \<or> (\<exists>f. forced_window_size = Some f \<and> 0 < f)"
    and "window_size date_window_size forced_window_size \<le> 999999999"
    and "0 < old_end"
    and "old_end + window_size date_window_size forced_window_size \<le> MAXORDINAL"
    and "new_end = min today (old_end + window_size date_window_size forced_window_size)"
  shows "(\<exists>new_params.
            shift_sync_window params today date_window_size forced_window_size
              = Inr (old_end, new_end, new_params)
          \<and> map_of new_params =
              (map_of params)
                (''dateRange.start.day'' \<mapsto> JInt (date_day old_end),
                 ''dateRange.start.month'' \<mapsto> JInt (date_month old_end),
                 ''dateRange.start.year'' \<mapsto> JInt (date_year old_end),
                 ''dateRange.end.day'' \<mapsto> JInt (date_day new_end),
                 ''dateRange.end.month'' \<mapsto> JInt (date_month new_end),
                 ''dateRange.end.year'' \<mapsto> JInt (date_year new_end)))
       \<and> old_end \<le> new_end \<and> new_end \<le> today"
proof -
  define w where "w = window_size date_window_size forced_window_size"
  have wpos: "0 < w"
    using assms(3,4) by (auto simp: w_def window_size_def)
  have add: "date_add_days old_end w = Inr (old_end + w)"
    using assms(5,6,7) wpos by (simp add: date_add_days_def w_def)
  obtain year month day where
    y: "py_item params ''dateRange.end.year'' = Inr year" and
    m: "py_item params ''dateRange.end.month'' = Inr month" and
    d: "py_item params ''dateRange.end.day'' = Inr day" and
    e: "date_of_values year month day = Inr old_end"
    using assms(1) by (auto simp: params_end_def seq_Inr_iff)
  have ne: "new_end = min today (old_end + w)"
    using assms(8) by (simp add: w_def)
  have run: "shift_sync_window params today date_window_size forced_window_size
          = Inr (old_end, new_end,
                 dict_update params
             [(''dateRange.start.day'', JInt (date_day old_end)),
              (''dateRange.start.month'', JInt (date_month old_end)),
              (''dateRange.start.year'', JInt (date_year old_end)),
              (''dateRange.end.day'', JInt (date_day new_end)),
              (''dateRange.end.month'', JInt (date_month new_end)),
              (''dateRange.end.year'', JInt (date_year new_end))])"
    using y m d e add
    by (simp add: shift_sync_window_def w_def [symmetric] window_size_def [symmetric] Let_def ne)
  have inv: "old_end \<le> new_end \<and> new_end \<le> today"
    using assms(2) wpos ne by simp
  from run inv show ?thesis
    by (simp add: map_of_dict_update_window)
qed

lemma ymd2ord_2024_01_24: "date_new 2024 1 24 = Inr 738909"
  by (simp add: date_new_def ymd2ord_def days_before_year_def days_before_month_def days_in_month_def
        DAYS_IN_MONTH_def DAYS_BEFORE_MONTH_def is_leap_def)

lemma ord2ymd_738909: "ord2ymd 738909 = (2024, 1, 24)"
  by (simp add: ord2ymd_def Let_def DAYS_IN_MONTH_def DAYS_BEFORE_MONTH_def)

lemma ord2ymd_738917: "ord2ymd 738917 = (2024, 2, 1)"
  by (simp add: ord2ymd_def Let_def DAYS_IN_MONTH_def DAYS_BEFORE_MONTH_def)

theorem shift_sync_window_advance_witness:
  "params_end example_window_params = Inr 738909
   \<and> shift_sync_window example_window_params 738917 30 None
       = Inr (738909, 738917,
           [(''q'', JStr ''analytics''), (''pivot'', JStr ''CAMPAIGN''), (''timeGranularity'', JStr ''DAILY''),
            (''count'', JInt 10000), (''campaigns[0]'', JStr ''urn:li:sponsoredCampaign:7''),
            (''dateRange.start.day'', JInt 24), (''dateRange.start.month'', JInt 1),
            (''dateRange.start.year'', JInt 2024),
            (''dateRange.end.day'', JInt 1), (''dateRange.end.month'', JInt 2),
            (''dateRange.end.year'', JInt 2024), (''fields'', JStr ''clicks,dateRange,pivotValues'')])
   \<and> shift_sync_window example_window_params 738917 30 (Some 3)
       = Inr (738909, 738912,
           [(''q'', JStr ''analytics''), (''pivot'', JStr ''CAMPAIGN''), (''timeGranularity'', JStr ''DAILY''),
            (''count'', JInt 10000), (''campaigns[0]'', JStr ''urn:li:sponsoredCampaign:7''),
            (''dateRange.start.day'', JInt 24), (''dateRange.start.month'', JInt 1),
            (''dateRange.start.year'', JInt 2024),
            (''dateRange.end.day'', JInt 27), (''dateRange.end.month'', JInt 1),
            (''dateRange.end.year'', JInt 2024), (''fields'', JStr ''clicks,dateRange,pivotValues'')])"
proof -
  have pe: "params_end example_window_params = Inr 738909"
    by (simp add: params_end_def example_window_params_def py_item_def date_of_values_def ymd2ord_2024_01_24)
  have a: "\<exists>new_params. shift_sync_window example_window_params 738917 30 None = Inr (738909, 738917, new_params)"
  proof -
    have h2: "(738909::int) \<le> 738917" and h3: "(0::int) < 30"
      and h4: "(None::int option) = None \<or> (\<exists>f. (None::int option) = Some f \<and> 0 < f)"
      and h5: "window_size 30 None \<le> 999999999" and h6: "(0::int) < 738909"
      and h7: "738909 + window_size 30 None \<le> MAXORDINAL"
      and h8: "(738917::int) = min 738917 (738909 + window_size 30 None)"
      by (simp_all add: window_size_def MAXORDINAL_def)
    from shift_sync_window_advance [OF pe h2 h3 h4 h5 h6 h7 h8] show ?thesis by blast
  qed
  have b: "\<exists>new_params. shift_sync_window example_window_params 738917 30 (Some 3) = Inr (738909, 738912, new_params)"
  proof -
    have h2: "(738909::int) \<le> 738917" and h3: "(0::int) < 30"
      and h4: "Some (3::int) = None \<or> (\<exists>f. Some (3::int) = Some f \<and> 0 < f)"
      and h5: "window_size 30 (Some 3) \<le> 999999999" and h6: "(0::int) < 738909"
      and h7: "738909 + window_size 30 (Some 3) \<le> MAXORDINAL"
      and h8: "(738912::int) = min 738917 (738909 + window_size 30 (Some 3))"
      by (simp_all add: window_size_def MAXORDINAL_def)
    from shift_sync_window_advance [OF pe h2 h3 h4 h5 h6 h7 h8] show ?thesis by blast
  qed
  have ord2ymd_738912: "ord2ymd 738912 = (2024, 1, 27)"
    by (simp add: ord2ymd_def Let_def DAYS_IN_MONTH_def DAYS_BEFORE_MONTH_def)
  have upd: "\<And>a b c d e f. dict_update example_window_params
             [(''dateRange.start.day'', a), (''dateRange.start.month'', b), (''dateRange.start.year'', c),
              (''dateRange.end.day'', d), (''dateRange.end.month'', e), (''dateRange.end.year'', f)]
           = [(''q'', JStr ''analytics''), (''pivot'', JStr ''CAMPAIGN''), (''timeGranularity'', JStr ''DAILY''),
            (''count'', JInt 10000), (''campaigns[0]'', JStr ''urn:li:sponsoredCampaign:7''),
            (''dateRange.start.day'', a), (''dateRange.start.month'', b),
            (''dateRange.start.year'', c),
            (''dateRange.end.day'', d), (''dateRange.end.month'', e),
            (''dateRange.end.year'', f), (''fields'', JStr ''clicks,dateRange,pivotValues'')]"
    by (simp add: dict_update_def example_window_params_def)
  from a have a': "shift_sync_window example_window_params 738917 30 None
       = Inr (738909, 738917,
           [(''q'', JStr ''analytics''), (''pivot'', JStr ''CAMPAIGN''), (''timeGranularity'', JStr ''DAILY''),
            (''count'', JInt 10000), (''campaigns[0]'', JStr ''urn:li:sponsoredCampaign:7''),
            (''dateRange.start.day'', JInt 24), (''dateRange.start.month'', JInt 1),
            (''dateRange.start.year'', JInt 2024),
            (''dateRange.end.day'', JInt 1), (''dateRange.end.month'', JInt 2),
            (''dateRange.end.year'', JInt 2024), (''fields'', JStr ''clicks,dateRange,pivotValues'')])"
    by (auto simp: shift_sync_window_def seq_Inr_iff Let_def upd date_day_def date_month_def date_year_def
          ord2ymd_738909 ord2ymd_738917)
  from b have b': "shift_sync_window example_window_params 738917 30 (Some 3)
       = Inr (738909, 738912,
           [(''q'', JStr ''analytics''), (''pivot'', JStr ''CAMPAIGN''), (''timeGranularity'', JStr ''DAILY''),
            (''count'', JInt 10000), (''campaigns[0]'', JStr ''urn:li:sponsoredCampaign:7''),
            (''dateRange.start.day'', JInt 24), (''dateRange.start.month'', JInt 1),
            (''dateRange.start.year'', JInt 2024),
            (''dateRange.end.day'', JInt 27), (''dateRange.end.month'', JInt 1),
            (''dateRange.end.year'', JInt 2024), (''fields'', JStr ''clicks,dateRange,pivotValues'')])"
    by (auto simp: shift_sync_window_def seq_Inr_iff Let_def upd date_day_def date_month_def date_year_def
          ord2ymd_738909 ord2ymd_738912)
  from pe a' b' show ?thesis by simp
qed

section \<open>Properties of the identifier resolver\<close>

lemma requests_store_name [simp]: "requests (store_name r code name st) = requests st"
  by (simp add: store_name_def)

lemma keys_store_name: "fst ` set (resolved (store_name r code name st)) = insert code (fst ` set (resolved st))"
  by (simp add: store_name_def dom_update)

lemma results_loop_requests: "requests (fst (results_loop r items st)) = requests st"
  by (induction r items st rule: results_loop.induct) (auto split: sum.splits)

lemma elements_loop_requests: "requests (fst (elements_loop L r wanted elements st)) = requests st"
  by (induction L r wanted elements st rule: elements_loop.induct) (auto split: sum.splits)

lemma results_loop_keys: "fst ` set (resolved st) \<subseteq> fst ` set (resolved (fst (results_loop r items st)))"
proof (induction r items st rule: results_loop.induct)
  case (1 r st)
  show ?case by simp
next
  case (2 r code result rest st)
  show ?case
  proof (cases "is_dict result")
    case True
    show ?thesis
    proof (cases "result_name r result code")
      case (Inl e)
      with True show ?thesis by simp
    next
      case (Inr name)
      with True "2.IH"(1) [OF True Inr] show ?thesis
        by (auto simp: keys_store_name)
    qed
  next
    case False
    with "2.IH"(2) [OF False] show ?thesis
      by (auto simp: dom_update)
  qed
qed

lemma elements_loop_keys:
  "fst ` set (resolved st) \<subseteq> fst ` set (resolved (fst (elements_loop L r wanted elements st)))"
proof (induction L r wanted elements st rule: elements_loop.induct)
  case (1 L r wanted st)
  show ?case by simp
next
  case (2 L r wanted element rest st)
  show ?case
  proof (cases "is_dict element")
    case False
    with "2.IH"(3) show ?thesis by simp
  next
    case True
    then obtain kvs where el: "element = JObj kvs" by (cases element) auto
    define ident where "ident = (case map_of kvs ''id'' of None \<Rightarrow> JNull | Some v \<Rightarrow> v)"
    have g: "py_get element ''id'' JNull = Inr ident" by (simp add: el ident_def)
    show ?thesis
    proof (cases "py_str L ident \<in> set wanted")
      case w: False
      with True g "2.IH"(2) [OF True g w] show ?thesis by simp
    next
      case w: True
      show ?thesis
      proof (cases "localized_name element (JStr (py_str L ident))")
        case (Inl e)
        with True g w show ?thesis by simp
      next
        case (Inr name)
        with True g w "2.IH"(1) [OF True g w Inr] show ?thesis
          by (auto simp: keys_store_name)
      qed
    qed
  qed
qed

lemma process_response_requests: "requests (fst (process_response L r wanted response st)) = requests st"
  by (auto simp: process_response_def results_loop_requests elements_loop_requests
        split: sum.splits bool.splits)

lemma process_response_keys:
  "fst ` set (resolved st) \<subseteq> fst ` set (resolved (fst (process_response L r wanted response st)))"
  using results_loop_keys elements_loop_keys
  by (auto simp: process_response_def split: sum.splits bool.splits)

lemma key_iff: "k \<in> fst ` set al \<longleftrightarrow> map_of al k \<noteq> None"
  by (simp add: map_of_eq_None_iff)

lemma fallback_Cons:
  "fallback (x # xs) st =
     fallback xs (if x \<in> fst ` set (resolved st) then st
                  else st\<lparr>resolved := AList.update x (JStr x) (resolved st)\<rparr>)"
  by (simp add: fallback_def)

lemma fallback_Nil [simp]: "fallback [] st = st"
  by (simp add: fallback_def)

lemma fallback_requests [simp]: "requests (fallback chunk st) = requests st"
  by (induction chunk arbitrary: st) (auto simp: fallback_Cons)

lemma fallback_resolved_cong:
  "resolved st = resolved st' \<Longrightarrow> resolved (fallback chunk st) = resolved (fallback chunk st')"
proof (induction chunk arbitrary: st st')
  case Nil
  then show ?case by simp
next
  case (Cons x xs)
  have "resolved (if x \<in> fst ` set (resolved st) then st
                  else st\<lparr>resolved := AList.update x (JStr x) (resolved st)\<rparr>)
      = resolved (if x \<in> fst ` set (resolved st') then st'
                  else st'\<lparr>resolved := AList.update x (JStr x) (resolved st')\<rparr>)"
    using Cons.prems by simp
  then show ?case
    unfolding fallback_Cons by (rule Cons.IH)
qed

lemma fallback_requests_update:
  "resolved (fallback chunk (st\<lparr>requests := q\<rparr>)) = resolved (fallback chunk st)"
  by (rule fallback_resolved_cong) simp

lemma fallback_lookup:
  "map_of (resolved (fallback chunk st)) c =
     (if c \<in> set chunk \<and> map_of (resolved st) c = None then Some (JStr c) else map_of (resolved st) c)"
proof (induction chunk arbitrary: st)
  case Nil
  show ?case by simp
next
  case (Cons x xs)
  show ?case
    by (simp add: fallback_Cons Cons.IH key_iff update_conv' del: map_of_eq_None_iff)
qed

lemma fallback_keys: "fst ` set (resolved (fallback chunk st)) = fst ` set (resolved st) \<union> set chunk"
proof -
  have "\<And>k. k \<in> fst ` set (resolved (fallback chunk st))
          \<longleftrightarrow> k \<in> fst ` set (resolved st) \<or> k \<in> set chunk"
    unfolding key_iff by (auto simp add: fallback_lookup simp del: map_of_eq_None_iff)
  then show ?thesis by blast
qed

lemma request_chunk_requests:
  "requests (fst (request_chunk L client r locale chunk st))
     = requests st @ [(resolver_url r locale chunk, resolver_endpoint r)]"
  by (simp add: request_chunk_def Let_def process_response_requests split: sum.splits)

lemma request_chunk_keys:
  "fst ` set (resolved st) \<subseteq> fst ` set (resolved (fst (request_chunk L client r locale chunk st)))"
proof (cases "client (length (requests st)) (resolver_url r locale chunk) (resolver_endpoint r)")
  case (Inl e)
  then show ?thesis by (simp add: request_chunk_def)
next
  case (Inr response)
  with process_response_keys [of "st\<lparr>requests := requests st @ [(resolver_url r locale chunk, resolver_endpoint r)]\<rparr>"
         L r chunk response]
  show ?thesis by (simp add: request_chunk_def)
qed

lemma resolve_chunk_cases:
  "resolve_chunk L client r locale chunk st =
     (if snd (request_chunk L client r locale chunk st) = None
      then fst (request_chunk L client r locale chunk st)
      else fallback chunk (fst (request_chunk L client r locale chunk st)))"
  by (auto simp: resolve_chunk_def split: prod.splits option.splits)

lemma resolve_chunk_requests:
  "requests (resolve_chunk L client r locale chunk st)
     = requests st @ [(resolver_url r locale chunk, resolver_endpoint r)]"
  by (simp add: resolve_chunk_cases request_chunk_requests)

lemma resolve_chunk_keys:
  "fst ` set (resolved st) \<subseteq> fst ` set (resolved (resolve_chunk L client r locale chunk st))"
  using request_chunk_keys [of st L client r "locale" chunk]
  by (auto simp: resolve_chunk_cases fallback_keys)

lemma resolve_chunk_failed:
  assumes "client (length (requests st)) (resolver_url r locale chunk) (resolver_endpoint r) = Inl e"
  shows "resolved (resolve_chunk L client r locale chunk st) = resolved (fallback chunk st)"
  using assms by (simp add: resolve_chunk_def request_chunk_def fallback_requests_update)

lemma fold_resolve_chunk_requests:
  "requests (fold (resolve_chunk L client r locale) chunks st)
     = requests st @ map (\<lambda>chunk. (resolver_url r locale chunk, resolver_endpoint r)) chunks"
  by (induction chunks arbitrary: st) (auto simp: resolve_chunk_requests)

lemma fold_resolve_chunk_keys:
  "fst ` set (resolved st) \<subseteq> fst ` set (resolved (fold (resolve_chunk L client r locale) chunks st))"
proof (induction chunks arbitrary: st)
  case Nil
  show ?case by simp
next
  case (Cons c cs)
  have "fst ` set (resolved st) \<subseteq> fst ` set (resolved (resolve_chunk L client r locale c st))"
    by (rule resolve_chunk_keys)
  also have "\<dots> \<subseteq> fst ` set (resolved (fold (resolve_chunk L client r locale) cs
                                          (resolve_chunk L client r locale c st)))"
    by (rule Cons.IH)
  finally show ?case by simp
qed

lemma fold_resolve_chunk_failed:
  assumes "j < length chunks"
    and "client (length (requests st) + j) (resolver_url r locale (chunks ! j)) (resolver_endpoint r) = Inl e"
  shows "set (chunks ! j) \<subseteq> fst ` set (resolved (fold (resolve_chunk L client r locale) chunks st))"
  using assms
proof (induction chunks arbitrary: st j)
  case Nil
  then show ?case by simp
next
  case (Cons c cs)
  show ?case
  proof (cases j)
    case j0: 0
    have "client (length (requests st)) (resolver_url r locale c) (resolver_endpoint r) = Inl e"
      using Cons.prems(2) j0 by simp
    then have "resolved (resolve_chunk L client r locale c st) = resolved (fallback c st)"
      by (rule resolve_chunk_failed)
    then have "set c \<subseteq> fst ` set (resolved (resolve_chunk L client r locale c st))"
      by (simp add: fallback_keys)
    also have "\<dots> \<subseteq> fst ` set (resolved (fold (resolve_chunk L client r locale) cs
                                          (resolve_chunk L client r locale c st)))"
      by (rule fold_resolve_chunk_keys)
    finally show ?thesis using j0 by simp
  next
    case (Suc k)
    have k: "k < length cs" using Cons.prems(1) Suc by simp
    have "length (requests (resolve_chunk L client r locale c st)) + k = length (requests st) + j"
      using Suc by (simp add: resolve_chunk_requests)
    then have "client (length (requests (resolve_chunk L client r locale c st)) + k)
             (resolver_url r locale (cs ! k)) (resolver_endpoint r) = Inl e"
      using Cons.prems(2) Suc by simp
    from Cons.IH [OF k this] Suc show ?thesis by simp
  qed
qed

lemma length_code_chunks: "length (code_chunks codes) = (length codes + 149) div 150"
  by (simp add: code_chunks_def py_range_def chunk_size_def)

lemma code_chunks_cover:
  assumes "c \<in> set codes"
  shows "\<exists>j < length (code_chunks codes). c \<in> set (code_chunks codes ! j)"
proof -
  from assms obtain i where i: "i < length codes" "codes ! i = c"
    by (auto simp: in_set_conv_nth)
  define j where "j = i div 150"
  have jl: "j < (length codes + 149) div 150"
    using i(1) unfolding j_def by (simp add: div_less_iff_less_mult)
  have nth: "code_chunks codes ! j = take 150 (drop (j * 150) codes)"
    using jl by (simp add: code_chunks_def py_range_def chunk_size_def)
  have d: "j * 150 + i mod 150 = i"
    unfolding j_def by simp
  have m: "i mod 150 < 150"
    by simp
  have "i mod 150 < length codes - j * 150"
    using d i(1) by linarith
  with m have l: "i mod 150 < length (take 150 (drop (j * 150) codes))"
    by simp
  have "take 150 (drop (j * 150) codes) ! (i mod 150) = codes ! (j * 150 + i mod 150)"
    using m l by simp
  with d i(2) have "take 150 (drop (j * 150) codes) ! (i mod 150) = c"
    by simp
  with l have "c \<in> set (take 150 (drop (j * 150) codes))"
    by (metis nth_mem)
  with nth have "c \<in> set (code_chunks codes ! j)"
    by simp
  moreover have "j < length (code_chunks codes)"
    using jl by (simp only: length_code_chunks)
  ultimately show ?thesis by blast
qed


lemma batch_resolve_fold:
  "batch_resolve L client r locale codes log
     = fold (resolve_chunk L client r locale) (batches r codes)
         \<lparr>resolved = [], cache = [], requests = log\<rparr>"
  by (simp add: batch_resolve_def batches_def)

lemma fold_all_failed:
  assumes fails: "\<And>n u ep. isl (client n u ep)"
  shows "map_of (resolved (fold (resolve_chunk L client r locale) chunks st)) c
           = (if c \<in> \<Union> (set ` set chunks) \<and> map_of (resolved st) c = None
              then Some (JStr c) else map_of (resolved st) c)"
proof (induction chunks arbitrary: st)
  case Nil
  show ?case by simp
next
  case (Cons chunk chunks)
  obtain e where e: "client (length (requests st)) (resolver_url r locale chunk) (resolver_endpoint r) = Inl e"
    using fails [of "length (requests st)" "resolver_url r locale chunk" "resolver_endpoint r"]
    by (auto simp: isl_def)
  have step: "map_of (resolved (resolve_chunk L client r locale chunk st)) c
        = (if c \<in> set chunk \<and> map_of (resolved st) c = None then Some (JStr c)
           else map_of (resolved st) c)"
    using resolve_chunk_failed [of client st r "locale" chunk e L, OF e]
    by (simp only: fallback_lookup)
  show ?case
    by (simp only: fold_simps Cons.IH step) auto
qed

lemma batches_cover:
  assumes "c \<in> set codes"
  shows "c \<in> \<Union> (set ` set (batches r codes))"
proof (cases "r = Seniorities")
  case True
  then show ?thesis using assms by (simp add: batches_def)
next
  case False
  from code_chunks_cover [OF assms] obtain j
    where "j < length (code_chunks codes)" "c \<in> set (code_chunks codes ! j)" by blast
  then have "c \<in> \<Union> (set ` set (code_chunks codes))"
    using nth_mem by blast
  with False show ?thesis by (simp add: batches_def)
qed

lemma map_of_store_name:
  "map_of (resolved (store_name r code name st)) c
     = (if c = code then Some name else map_of (resolved st) c)"
  by (simp add: store_name_def update_conv')

lemma results_loop_lookup:
  assumes "distinct (map fst items)"
    and "\<forall>(code, result) \<in> set items. is_dict result \<longrightarrow> \<not> isl (result_name r result code)"
  shows "snd (results_loop r items st) = None \<and>
         map_of (resolved (fst (results_loop r items st))) c
           = (case map_of items c of
                None \<Rightarrow> map_of (resolved st) c
              | Some result \<Rightarrow>
                  Some (if is_dict result then projr (result_name r result c) else JStr c))"
  using assms
proof (induction items arbitrary: st)
  case Nil
  show ?case by simp
next
  case (Cons item items)
  obtain code result where item: "item = (code, result)" by (cases item)
  from Cons.prems item have notin: "map_of items code = None"
    by (simp add: map_of_eq_None_iff)
  from Cons.prems have d: "distinct (map fst items)"
    and ok: "\<forall>(code, result) \<in> set items. is_dict result \<longrightarrow> \<not> isl (result_name r result code)"
    by simp_all
  note IH = Cons.IH [OF d ok]
  show ?case
  proof (cases "is_dict result")
    case True
    with Cons.prems item obtain name where name: "result_name r result code = Inr name"
      by (cases "result_name r result code") auto
    have run: "results_loop r (item # items) st = results_loop r items (store_name r code name st)"
      using True name item by simp
    show ?thesis
      unfolding run using IH [of "store_name r code name st"] notin True name item
      by (auto simp: map_of_store_name split: option.splits)
  next
    case False
    have run: "results_loop r (item # items) st
        = results_loop r items (st\<lparr>resolved := AList.update code (JStr code) (resolved st)\<rparr>)"
      using False item by simp
    show ?thesis
      unfolding run
      using IH [of "st\<lparr>resolved := AList.update code (JStr code) (resolved st)\<rparr>"] notin False item
      by (auto simp: update_conv' split: option.splits)
  qed
qed


lemma find_snoc:
  "List.find P (xs @ [x]) = (case List.find P xs of None \<Rightarrow> if P x then Some x else None | Some y \<Rightarrow> Some y)"
  by (induction xs) auto

lemma element_code_dict:
  "py_get (JObj kvs) ''id'' JNull = Inr ident \<Longrightarrow> element_code L (JObj kvs) = py_str L ident"
  by (simp add: element_code_def)

lemma elements_loop_lookup:
  assumes "\<forall>el \<in> set elements. is_dict el \<and> element_code L el \<in> set wanted
             \<longrightarrow> \<not> isl (localized_name el (JStr (element_code L el)))"
  shows "snd (elements_loop L r wanted elements st) = None \<and>
         map_of (resolved (fst (elements_loop L r wanted elements st))) c
           = (case List.find (\<lambda>el. is_dict el \<and> element_code L el = c) (rev elements) of
                None \<Rightarrow> map_of (resolved st) c
              | Some el \<Rightarrow>
                  if c \<in> set wanted then Some (projr (localized_name el (JStr c)))
                  else map_of (resolved st) c)"
  using assms
proof (induction elements arbitrary: st)
  case Nil
  show ?case by simp
next
  case (Cons el els)
  from Cons.prems have ok: "\<forall>el \<in> set els. is_dict el \<and> element_code L el \<in> set wanted
             \<longrightarrow> \<not> isl (localized_name el (JStr (element_code L el)))"
    by simp
  note IH = Cons.IH [OF ok]
  show ?case
  proof (cases "is_dict el")
    case False
    then have run: "elements_loop L r wanted (el # els) st = elements_loop L r wanted els st"
      by simp
    show ?thesis
      unfolding run using IH [of st] False
      by (simp add: find_snoc split: option.splits)
  next
    case True
    then obtain kvs where el: "el = JObj kvs" by (cases el) auto
    obtain ident where ident: "py_get el ''id'' JNull = Inr ident"
      using el by simp
    have code: "element_code L el = py_str L ident"
      using ident el by (simp add: element_code_def)
    show ?thesis
    proof (cases "py_str L ident \<in> set wanted")
      case False
      have run: "elements_loop L r wanted (el # els) st = elements_loop L r wanted els st"
        using True ident False by simp
      show ?thesis
        unfolding run using IH [of st] False code
        by (auto simp: find_snoc split: option.splits)
    next
      case wanted: True
      with Cons.prems True code obtain name
        where name: "localized_name el (JStr (py_str L ident)) = Inr name"
        by (cases "localized_name el (JStr (py_str L ident))") auto
      have run: "elements_loop L r wanted (el # els) st
          = elements_loop L r wanted els (store_name r (py_str L ident) name st)"
        using True ident wanted name by simp
      show ?thesis
        unfolding run using IH [of "store_name r (py_str L ident) name st"] wanted code name True
        by (auto simp: find_snoc map_of_store_name split: option.splits)
    qed
  qed
qed


lemma process_response_results:
  assumes "r \<noteq> Functions" "r \<noteq> Seniorities"
    and "map_of body ''results'' = Some (JObj items)"
  shows "process_response L r wanted (JObj body) st = results_loop r items st"
proof -
  from assms(3) have k: "''results'' \<in> fst ` set body" and ne: "body \<noteq> []"
    by (auto simp: key_iff simp del: map_of_eq_None_iff)
  show ?thesis
    using assms k ne by (simp add: process_response_def py_item_def)
qed

lemma process_response_elements:
  assumes "r = Functions \<or> r = Seniorities"
    and "map_of body ''elements'' = Some (JList elements)"
  shows "process_response L r wanted (JObj body) st = elements_loop L r wanted elements st"
proof -
  from assms(2) have k: "''elements'' \<in> fst ` set body" and ne: "body \<noteq> []"
    by (auto simp: key_iff simp del: map_of_eq_None_iff)
  show ?thesis
    using assms k ne by (auto simp: process_response_def py_item_def)
qed

lemma resolve_chunk_ok:
  assumes "client (length (requests st)) (resolver_url r locale chunk) (resolver_endpoint r) = Inr response"
    and "snd (process_response L r chunk response
           (st\<lparr>requests := requests st @ [(resolver_url r locale chunk, resolver_endpoint r)]\<rparr>)) = None"
  shows "resolve_chunk L client r locale chunk st
     = fst (process_response L r chunk response
           (st\<lparr>requests := requests st @ [(resolver_url r locale chunk, resolver_endpoint r)]\<rparr>))"
  using assms by (simp add: resolve_chunk_cases request_chunk_def Let_def)

lemma resolve_chunk_results:
  assumes r: "r \<noteq> Functions" "r \<noteq> Seniorities"
    and ok: "client (length (requests st)) (resolver_url r locale chunk) (resolver_endpoint r) = Inr (JObj body)"
    and res: "map_of body ''results'' = Some (JObj items)"
    and d: "distinct (map fst items)"
    and names: "\<forall>(code, result) \<in> set items. is_dict result \<longrightarrow> \<not> isl (result_name r result code)"
  shows "map_of (resolved (resolve_chunk L client r locale chunk st)) c
           = (case map_of items c of
                None \<Rightarrow> map_of (resolved st) c
              | Some result \<Rightarrow>
                  Some (if is_dict result then projr (result_name r result c) else JStr c))"
proof -
  let ?st1 = "st\<lparr>requests := requests st @ [(resolver_url r locale chunk, resolver_endpoint r)]\<rparr>"
  note pr = process_response_results [OF r res, of L chunk ?st1]
  note loop = results_loop_lookup [OF d names, of ?st1 c]
  have "resolve_chunk L client r locale chunk st = fst (results_loop r items ?st1)"
    using resolve_chunk_ok [of client st r "locale" chunk "JObj body" L] ok loop pr by simp
  with loop show ?thesis by (simp cong: option.case_cong if_cong)
qed

lemma resolve_chunk_elements:
  assumes r: "r = Functions \<or> r = Seniorities"
    and ok: "client (length (requests st)) (resolver_url r locale chunk) (resolver_endpoint r) = Inr (JObj body)"
    and res: "map_of body ''elements'' = Some (JList elements)"
    and names: "\<forall>el \<in> set elements. is_dict el \<and> element_code L el \<in> set chunk
             \<longrightarrow> \<not> isl (localized_name el (JStr (element_code L el)))"
  shows "map_of (resolved (resolve_chunk L client r locale chunk st)) c
           = (case List.find (\<lambda>el. is_dict el \<and> element_code L el = c) (rev elements) of
                None \<Rightarrow> map_of (resolved st) c
              | Some el \<Rightarrow>
                  if c \<in> set chunk then Some (projr (localized_name el (JStr c)))
                  else map_of (resolved st) c)"
proof -
  let ?st1 = "st\<lparr>requests := requests st @ [(resolver_url r locale chunk, resolver_endpoint r)]\<rparr>"
  note pr = process_response_elements [OF r res, of L chunk ?st1]
  note loop = elements_loop_lookup [OF names, of r ?st1 c]
  have "resolve_chunk L client r locale chunk st = fst (elements_loop L r chunk elements ?st1)"
    using resolve_chunk_ok [of client st r "locale" chunk "JObj body" L] ok loop pr by simp
  with loop show ?thesis by (simp cong: option.case_cong if_cong)
qed

lemma resolve_chunk_failed_lookup:
  assumes "isl (client (length (requests st)) (resolver_url r locale chunk) (resolver_endpoint r))"
  shows "map_of (resolved (resolve_chunk L client r locale chunk st)) c
        = (if c \<in> set chunk \<and> map_of (resolved st) c = None then Some (JStr c)
           else map_of (resolved st) c)"
proof -
  from assms obtain e
    where e: "client (length (requests st)) (resolver_url r locale chunk) (resolver_endpoint r) = Inl e"
    by (auto simp: isl_def)
  show ?thesis
    using resolve_chunk_failed [of client st r "locale" chunk e L, OF e]
    by (simp only: fallback_lookup)
qed

lemma name_path_missing:
  assumes "map_of kvs ''name'' = None" "map_of kvs ''localizedName'' = None"
    "map_of kvs ''defaultLocalizedName'' = None"
  shows "result_name r (JObj kvs) code = Inr (JStr code)"
    and "localized_name (JObj kvs) (JStr code) = Inr (JStr code)"
  using assms by (cases r; simp add: localized_name_def)+


lemma digit_char_inj:
  assumes "a < 10" "b < 10" "digit_char a = digit_char b"
  shows "a = b"
proof -
  have "distinct ''0123456789''" by simp
  moreover have "a < length ''0123456789''" "b < length ''0123456789''" using assms by simp_all
  ultimately show ?thesis
    using assms(3) unfolding digit_char_def by (simp only: nth_eq_iff_index_eq)
qed

lemma digits_unfold:
  "digits n = (if n < 10 then [digit_char n] else digits (n div 10) @ [digit_char (n mod 10)])"
  by (rule digits.simps)

lemma digits_nonempty: "digits n \<noteq> []"
  by (subst digits_unfold) (simp del: digits.simps)

lemma digits_inj: "digits m = digits n \<Longrightarrow> m = n"
proof (induction m arbitrary: n rule: digits.induct)
  case (1 m)
  show ?case
  proof (cases "m < 10")
    case m: True
    show ?thesis
    proof (cases "n < 10")
      case True
      with m "1.prems" have "digit_char m = digit_char n"
        by (subst (asm) digits_unfold, subst (asm) (2) digits_unfold) (simp del: digits.simps)
      with m True show ?thesis by (rule digit_char_inj)
    next
      case False
      with m "1.prems" have "[digit_char m] = digits (n div 10) @ [digit_char (n mod 10)]"
        by (subst (asm) digits_unfold, subst (asm) (2) digits_unfold) (simp del: digits.simps)
      then have "digits (n div 10) = []" by simp
      with digits_nonempty show ?thesis by blast
    qed
  next
    case m: False
    show ?thesis
    proof (cases "n < 10")
      case True
      with m "1.prems" have "digits (m div 10) @ [digit_char (m mod 10)] = [digit_char n]"
        by (subst (asm) digits_unfold, subst (asm) (2) digits_unfold) (simp del: digits.simps)
      then have "digits (m div 10) = []" by simp
      with digits_nonempty show ?thesis by blast
    next
      case False
      with m "1.prems" have eq: "digits (m div 10) @ [digit_char (m mod 10)]
           = digits (n div 10) @ [digit_char (n mod 10)]"
        by (subst (asm) digits_unfold, subst (asm) (2) digits_unfold) (simp del: digits.simps)
      then have a: "digits (m div 10) = digits (n div 10)"
        and b: "digit_char (m mod 10) = digit_char (n mod 10)" by simp_all
      from "1.IH" [OF m a] have d: "m div 10 = n div 10" .
      have "m mod 10 = n mod 10"
        by (rule digit_char_inj [OF _ _ b]) simp_all
      with d show ?thesis
        by (metis div_mult_mod_eq)
    qed
  qed
qed

lemma str_int_inj_nat: "str_int (int m) = str_int (int n) \<Longrightarrow> m = n"
  using digits_inj [of m n] by (simp add: str_int_def del: digits.simps)

lemma distinct_codes200: "distinct codes200"
  unfolding codes200_def
  by (auto simp: distinct_map inj_on_def dest: str_int_inj_nat)

lemma length_codes200: "length codes200 = 200"
  by (simp add: codes200_def)

lemma code_chunks_200:
  assumes "length codes = 200"
  shows "code_chunks codes = [take 150 codes, drop 150 codes]"
proof -
  have "py_range 200 150 = [0, 150]"
    by (simp add: py_range_def upt_rec)
  then show ?thesis
    using assms by (simp add: code_chunks_def chunk_size_def)
qed

lemma map_of_keyed:
  "map_of (map (\<lambda>k. (k, f k)) xs) c = (if c \<in> set xs then Some (f c) else None)"
  by (induction xs) auto

lemma title_name:
  "result_name Titles (JObj [(''name'', JObj [(''default'', title_of c)])]) c = Inr (title_of c)"
  by (simp add: localized_name_def title_of_def)

lemma take_codes200: "take 150 codes200 = map (\<lambda>n. str_int (int n)) [0 ..< 150]"
  by (simp add: codes200_def take_map)

lemma drop_codes200: "drop 150 codes200 = map (\<lambda>n. str_int (int n)) [150 ..< 200]"
  by (simp add: codes200_def drop_map)


lemma get_chain3:
  assumes "path_readable x [a, b, c]"
  shows "seq (py_get x a (JObj [])) (\<lambda>n. seq (py_get n b (JObj [])) (\<lambda>l. py_get l c d))
           = Inr (case path_value x [a, b, c] of None \<Rightarrow> d | Some v \<Rightarrow> v)"
proof (cases x)
  case (JObj kvs)
  show ?thesis
  proof (cases "map_of kvs a")
    case None
    with JObj show ?thesis by simp
  next
    case (Some n)
    with assms JObj have rn: "path_readable n [b, c]" by simp
    then obtain nkvs where n: "n = JObj nkvs" by (cases n) auto
    show ?thesis
    proof (cases "map_of nkvs b")
      case None
      with JObj Some n show ?thesis by simp
    next
      case l: (Some l)
      with rn n have "path_readable l [c]" by simp
      then obtain lkvs where "l = JObj lkvs" by (cases l) auto
      with JObj Some n l show ?thesis by (simp split: option.splits)
    qed
  qed
qed (use assms in simp_all)

lemma get_chain2:
  assumes "path_readable x [a, b]"
  shows "seq (py_get x a (JObj [])) (\<lambda>n. py_get n b d)
           = Inr (case path_value x [a, b] of None \<Rightarrow> d | Some v \<Rightarrow> v)"
proof (cases x)
  case (JObj kvs)
  show ?thesis
  proof (cases "map_of kvs a")
    case None
    with JObj show ?thesis by simp
  next
    case (Some n)
    with assms JObj have "path_readable n [b]" by simp
    then obtain nkvs where "n = JObj nkvs" by (cases n) auto
    with JObj Some show ?thesis by (simp split: option.splits)
  qed
qed (use assms in simp_all)

lemma path_readable_step:
  "path_readable v (k # ks) \<Longrightarrow> \<exists>kvs. v = JObj kvs"
  by (cases v) auto

lemma path_readable_prefix:
  assumes "path_readable x [''name'', ''localized'', ''en_US'']"
  shows "path_readable x [''name'', ''default'']"
proof -
  from path_readable_step [OF assms] obtain kvs where x: "x = JObj kvs" by blast
  show ?thesis
  proof (cases "map_of kvs ''name''")
    case None
    with x show ?thesis by simp
  next
    case (Some n)
    with assms x have "path_readable n [''localized'', ''en_US'']" by simp
    from path_readable_step [OF this] obtain nkvs where "n = JObj nkvs" by blast
    with x Some show ?thesis by (simp split: option.splits)
  qed
qed

lemma seq_assoc: "seq (seq m f) g = seq m (\<lambda>x. seq (f x) g)"
  by (cases m) simp_all

lemma localized_name_fetched:
  assumes "path_readable x [''name'', ''localized'', ''en_US'']"
  shows "localized_name x d
     = Inr (case path_value x [''name'', ''localized'', ''en_US''] of None \<Rightarrow> d | Some v \<Rightarrow> v)"
  unfolding localized_name_def by (rule get_chain3 [OF assms])

lemma result_name_fetched:
  assumes "path_readable x (name_path r)"
  shows "result_name r x code = Inr (fetched_name r x code)"
proof (cases r)
  case Titles
  with assms have rd: "path_readable x [''name'', ''localized'', ''en_US'']"
    by (simp add: name_path_def)
  note a = localized_name_fetched [OF rd, of JNull]
  note b = get_chain2 [OF path_readable_prefix [OF rd], of JNull]
  have c: "seq (py_get x ''name'' (JObj []))
         (\<lambda>name. seq (py_get name ''default'' JNull)
              (\<lambda>b. if truthy b then Inr b else Inr (JStr code)))
      = seq (Inr (case path_value x [''name'', ''default''] of None \<Rightarrow> JNull | Some v \<Rightarrow> v))
          (\<lambda>b. if truthy b then Inr b else Inr (JStr code))"
    unfolding b [symmetric] by (simp only: seq_assoc)
  show ?thesis
    unfolding Titles result_name.simps a seq.simps c
    by (auto simp: fetched_name_def true_value_def split: option.splits)
next
  case Organizations
  with assms have rd: "path_readable x [''name'', ''localized'', ''en_US'']"
    by (simp add: name_path_def)
  then obtain kvs where x: "x = JObj kvs" by (cases x) auto
  note a = localized_name_fetched [OF rd, of JNull]
  show ?thesis
    unfolding Organizations result_name.simps a
    by (auto simp: fetched_name_def true_value_def x split: option.splits)
next
  case Geo
  with assms have rd: "path_readable x [''defaultLocalizedName'', ''value'']"
    by (simp add: name_path_def)
  show ?thesis
    unfolding Geo result_name.simps get_chain2 [OF rd]
    by (simp add: fetched_name_def name_path_def)
next
  case Functions
  with assms have rd: "path_readable x [''name'', ''localized'', ''en_US'']"
    by (simp add: name_path_def)
  show ?thesis
    unfolding Functions result_name.simps localized_name_fetched [OF rd]
    by (simp add: fetched_name_def name_path_def)
next
  case Industries
  with assms have rd: "path_readable x [''name'', ''localized'', ''en_US'']"
    by (simp add: name_path_def)
  show ?thesis
    unfolding Industries result_name.simps localized_name_fetched [OF rd]
    by (simp add: fetched_name_def name_path_def)
next
  case Seniorities
  with assms have rd: "path_readable x [''name'', ''localized'', ''en_US'']"
    by (simp add: name_path_def)
  show ?thesis
    unfolding Seniorities result_name.simps localized_name_fetched [OF rd]
    by (simp add: fetched_name_def name_path_def)
qed

lemma element_name_fetched:
  assumes "r = Functions \<or> r = Seniorities" and "path_readable x (name_path r)"
  shows "localized_name x (JStr code) = Inr (fetched_name r x code)"
proof -
  from assms have rd: "path_readable x [''name'', ''localized'', ''en_US'']"
    by (auto simp: name_path_def)
  show ?thesis
    unfolding localized_name_fetched [OF rd] using assms(1)
    by (auto simp: fetched_name_def name_path_def)
qed


lemma resolve_chunk_raised_lookup:
  assumes "snd (request_chunk L client r locale chunk st) \<noteq> None"
  shows "map_of (resolved (resolve_chunk L client r locale chunk st)) c
        = (if c \<in> set chunk \<and> map_of (resolved (fst (request_chunk L client r locale chunk st))) c = None
           then Some (JStr c)
           else map_of (resolved (fst (request_chunk L client r locale chunk st))) c)"
  using assms by (simp add: resolve_chunk_cases fallback_lookup)

lemma request_failed_raises:
  assumes "isl (client (length (requests st)) (resolver_url r locale chunk) (resolver_endpoint r))"
  shows "snd (request_chunk L client r locale chunk st) \<noteq> None"
    and "resolved (fst (request_chunk L client r locale chunk st)) = resolved st"
  using assms by (auto simp: request_chunk_def Let_def isl_def)

lemma fold_resolve_chunk_raised:
  assumes j: "j < length chunks"
    and raised: "snd (request_chunk L client r locale (chunks ! j)
                   (fold (resolve_chunk L client r locale) (take j chunks) st)) \<noteq> None"
  shows "set (chunks ! j) \<subseteq> fst ` set (resolved (fold (resolve_chunk L client r locale) chunks st))"
proof -
  let ?f = "resolve_chunk L client r locale"
  let ?st = "fold ?f (take j chunks) st"
  have split: "chunks = take j chunks @ chunks ! j # drop (Suc j) chunks"
    using j by (rule id_take_nth_drop)
  have "fold ?f chunks st = fold ?f (take j chunks @ chunks ! j # drop (Suc j) chunks) st"
    using split by simp
  then have run: "fold ?f chunks st = fold ?f (drop (Suc j) chunks) (?f (chunks ! j) ?st)"
    by simp
  have "?f (chunks ! j) ?st = fallback (chunks ! j) (fst (request_chunk L client r locale (chunks ! j) ?st))"
    using raised by (simp only: resolve_chunk_cases if_False)
  then have "set (chunks ! j) \<subseteq> fst ` set (resolved (?f (chunks ! j) ?st))"
    by (simp add: fallback_keys)
  also have "\<dots> \<subseteq> fst ` set (resolved (fold ?f (drop (Suc j) chunks) (?f (chunks ! j) ?st)))"
    by (rule fold_resolve_chunk_keys)
  finally show ?thesis unfolding run .
qed

lemma resolve_chunk_results_fetched:
  assumes r: "r \<noteq> Functions" "r \<noteq> Seniorities"
    and ok: "client (length (requests st)) (resolver_url r locale chunk) (resolver_endpoint r) = Inr (JObj body)"
    and res: "map_of body ''results'' = Some (JObj items)"
    and d: "distinct (map fst items)"
    and names: "\<forall>(code, result) \<in> set items. is_dict result \<longrightarrow> path_readable result (name_path r)"
  shows "snd (request_chunk L client r locale chunk st) = None
     \<and> map_of (resolved (resolve_chunk L client r locale chunk st)) c
           = (case map_of items c of
                None \<Rightarrow> map_of (resolved st) c
              | Some result \<Rightarrow> Some (if is_dict result then fetched_name r result c else JStr c))"
proof -
  let ?st1 = "st\<lparr>requests := requests st @ [(resolver_url r locale chunk, resolver_endpoint r)]\<rparr>"
  have names': "\<forall>(code, result) \<in> set items. is_dict result \<longrightarrow> \<not> isl (result_name r result code)"
    using names by (auto simp: result_name_fetched simp del: result_name.simps)
  have "snd (results_loop r items ?st1) = None"
    using results_loop_lookup [OF d names', of ?st1 c] by simp
  then have a: "snd (request_chunk L client r locale chunk st) = None"
    using ok process_response_results [OF r res, of L chunk ?st1]
    by (simp add: request_chunk_def Let_def)
  have "(case map_of items c of
                None \<Rightarrow> map_of (resolved st) c
              | Some result \<Rightarrow> Some (if is_dict result then projr (result_name r result c) else JStr c))
      = (case map_of items c of
                None \<Rightarrow> map_of (resolved st) c
              | Some result \<Rightarrow> Some (if is_dict result then fetched_name r result c else JStr c))"
  proof (cases "map_of items c")
    case None
    then show ?thesis by simp
  next
    case (Some result)
    then have "(c, result) \<in> set items" by (rule map_of_SomeD)
    with names have "is_dict result \<longrightarrow> path_readable result (name_path r)" by blast
    then show ?thesis
      using Some by (auto simp: result_name_fetched simp del: result_name.simps)
  qed
  with resolve_chunk_results [of r client st "locale" chunk body items L c] r ok res d names' a
  show ?thesis by simp
qed

lemma find_Some_mem: "List.find P xs = Some x \<Longrightarrow> x \<in> set xs \<and> P x"
  by (induction xs) (auto split: if_splits)

lemma resolve_chunk_elements_fetched:
  assumes r: "r = Functions \<or> r = Seniorities"
    and ok: "client (length (requests st)) (resolver_url r locale chunk) (resolver_endpoint r) = Inr (JObj body)"
    and res: "map_of body ''elements'' = Some (JList elements)"
    and names: "\<forall>el \<in> set elements. is_dict el \<and> element_code L el \<in> set chunk
             \<longrightarrow> path_readable el (name_path r)"
  shows "snd (request_chunk L client r locale chunk st) = None
     \<and> map_of (resolved (resolve_chunk L client r locale chunk st)) c
           = (case List.find (\<lambda>el. is_dict el \<and> element_code L el = c) (rev elements) of
                None \<Rightarrow> map_of (resolved st) c
              | Some el \<Rightarrow>
                  if c \<in> set chunk then Some (fetched_name r el c) else map_of (resolved st) c)"
proof -
  let ?st1 = "st\<lparr>requests := requests st @ [(resolver_url r locale chunk, resolver_endpoint r)]\<rparr>"
  have names': "\<forall>el \<in> set elements. is_dict el \<and> element_code L el \<in> set chunk
             \<longrightarrow> \<not> isl (localized_name el (JStr (element_code L el)))"
    using names r by (auto simp: element_name_fetched)
  have "snd (elements_loop L r chunk elements ?st1) = None"
    using elements_loop_lookup [OF names', of r ?st1 c] by simp
  then have a: "snd (request_chunk L client r locale chunk st) = None"
    using ok process_response_elements [OF r res, of L chunk ?st1]
    by (simp add: request_chunk_def Let_def)
  have "(case List.find (\<lambda>el. is_dict el \<and> element_code L el = c) (rev elements) of
                None \<Rightarrow> map_of (resolved st) c
              | Some el \<Rightarrow>
                  if c \<in> set chunk then Some (projr (localized_name el (JStr c)))
                  else map_of (resolved st) c)
       = (case List.find (\<lambda>el. is_dict el \<and> element_code L el = c) (rev elements) of
                None \<Rightarrow> map_of (resolved st) c
              | Some el \<Rightarrow>
                  if c \<in> set chunk then Some (fetched_name r el c) else map_of (resolved st) c)"
  proof (cases "List.find (\<lambda>el. is_dict el \<and> element_code L el = c) (rev elements)")
    case None
    then show ?thesis by simp
  next
    case (Some el)
    from find_Some_mem [OF this]
    have "el \<in> set elements" "is_dict el" "element_code L el = c"
      by simp_all
    with names have "c \<in> set chunk \<longrightarrow> path_readable el (name_path r)" by blast
    then show ?thesis
      using Some r by (auto simp: element_name_fetched)
  qed
  with resolve_chunk_elements [of r client st "locale" chunk body elements L c] r ok res names' a
  show ?thesis by simp
qed

subsection \<open>What the returned mapping holds\<close>

text \<open>
  C6. For each of the six resolver variants \<open>resolve_urns\<close> returns a mapping and never
  raises. With \<open>codes\<close> the requested codes in the order the set lists them, the mapping
  is the result of running \<open>resolve_chunk\<close> over the batches of the variant, from the
  empty mapping, and:
  \<^item> every code of a batch whose \<open>try\<close> block raised (the request raised, or reading the
    response raised) has an entry; a request that raises is one such case;
  \<^item> if every request raises, every requested code is mapped to itself;
  \<^item> one batch whose \<open>try\<close> block raised maps each of its codes that has no entry at that
    point to itself and keeps the entries stored until then; if it is the request that
    raised, these are the entries from before the batch;
  \<^item> one batch of a \<open>results\<close> variant (titles, geo, industries, organizations) whose
    response is a dict with a \<open>results\<close> dict, the name path of every result that is a dict
    readable, raises nothing and maps every code of the response to its fetched name (to
    the code if the result is no dict) and changes nothing else: a code that is not in the
    response gets no entry;
  \<^item> one batch of an \<open>elements\<close> variant (functions, seniorities) whose response is a dict
    with a list of elements, the name path of every element with a requested id readable,
    raises nothing and maps a requested code to the fetched name of the last element with
    that id, and changes nothing else;
  \<^item> the name the code reads from a result or element with a readable name path is
    \<open>fetched_name\<close>: the code itself where a step of the name path is missing, except that
    the titles variant then takes \<open>name.default\<close> and the organizations variant
    \<open>localizedName\<close> if that is there and true, and the code otherwise.
\<close>



theorem resolve_urns_entries:
  assumes variant: "create_resolver endpoint = Inr r"
    and codes: "codes = set_order L (map extract_code urns)"
    and order: "set codes = extract_code ` set urns"
    and start: "st0 = \<lparr>resolved = [], cache = [], requests = log\<rparr>"
    and step: "st1 = fst (request_chunk L client r locale chunk st)"
  shows "(\<exists>m log'. resolve_urns L client urns endpoint locale log = Inr (m, log')
     \<and> (urns \<noteq> [] \<longrightarrow>
          m = resolved (fold (resolve_chunk L client r locale) (batches r codes) st0))
     \<and> (\<forall>j < length (batches r codes).
          urns \<noteq> [] \<and>
          snd (request_chunk L client r locale (batches r codes ! j)
                 (fold (resolve_chunk L client r locale) (take j (batches r codes)) st0)) \<noteq> None
          \<longrightarrow> set (batches r codes ! j) \<subseteq> fst ` set m)
     \<and> (\<forall>j < length (batches r codes).
          urns \<noteq> [] \<and>
          isl (client (length log + j) (resolver_url r locale (batches r codes ! j)) (resolver_endpoint r))
          \<longrightarrow> set (batches r codes ! j) \<subseteq> fst ` set m)
     \<and> ((\<forall>n u ep. isl (client n u ep))
          \<longrightarrow> (\<forall>urn \<in> set urns. map_of m (extract_code urn) = Some (JStr (extract_code urn)))))
     \<and> (snd (request_chunk L client r locale chunk st) \<noteq> None
          \<longrightarrow> map_of (resolved (resolve_chunk L client r locale chunk st)) c
               = (if c \<in> set chunk \<and> map_of (resolved st1) c = None then Some (JStr c)
                  else map_of (resolved st1) c))
     \<and> (isl (client (length (requests st)) (resolver_url r locale chunk) (resolver_endpoint r))
          \<longrightarrow> snd (request_chunk L client r locale chunk st) \<noteq> None
              \<and> resolved st1 = resolved st)
     \<and> (r \<noteq> Functions \<and> r \<noteq> Seniorities
          \<and> client (length (requests st)) (resolver_url r locale chunk) (resolver_endpoint r) = Inr (JObj body)
          \<and> map_of body ''results'' = Some (JObj items) \<and> distinct (map fst items)
          \<and> (\<forall>(code, result) \<in> set items. is_dict result \<longrightarrow> path_readable result (name_path r))
          \<longrightarrow> snd (request_chunk L client r locale chunk st) = None
              \<and> map_of (resolved (resolve_chunk L client r locale chunk st)) c
               = (case map_of items c of
                    None \<Rightarrow> map_of (resolved st) c
                  | Some result \<Rightarrow>
                      Some (if is_dict result then fetched_name r result c else JStr c)))
     \<and> ((r = Functions \<or> r = Seniorities)
          \<and> client (length (requests st)) (resolver_url r locale chunk) (resolver_endpoint r) = Inr (JObj body)
          \<and> map_of body ''elements'' = Some (JList elements)
          \<and> (\<forall>el \<in> set elements. is_dict el \<and> element_code L el \<in> set chunk
                 \<longrightarrow> path_readable el (name_path r))
          \<longrightarrow> snd (request_chunk L client r locale chunk st) = None
              \<and> map_of (resolved (resolve_chunk L client r locale chunk st)) c
               = (case List.find (\<lambda>el. is_dict el \<and> element_code L el = c) (rev elements) of
                    None \<Rightarrow> map_of (resolved st) c
                  | Some el \<Rightarrow>
                      if c \<in> set chunk then Some (fetched_name r el c)
                      else map_of (resolved st) c))
     \<and> (path_readable x (name_path r)
          \<longrightarrow> result_name r x c = Inr (fetched_name r x c)
              \<and> (r = Functions \<or> r = Seniorities
                   \<longrightarrow> localized_name x (JStr c) = Inr (fetched_name r x c)))
     \<and> (r \<noteq> Titles \<and> r \<noteq> Organizations \<and> path_value x (name_path r) = None
          \<longrightarrow> fetched_name r x c = JStr c)
     \<and> (r = Titles \<and> true_value (path_value x [''name'', ''localized'', ''en_US'']) = None
          \<longrightarrow> fetched_name r x c
               = (case true_value (path_value x [''name'', ''default'']) of
                    Some b \<Rightarrow> b | None \<Rightarrow> JStr c))
     \<and> (r = Organizations \<and> true_value (path_value x [''name'', ''localized'', ''en_US'']) = None
          \<longrightarrow> fetched_name r x c
               = (case true_value (path_value x [''localizedName'']) of
                    Some b \<Rightarrow> b | None \<Rightarrow> JStr c))"
proof -
  let ?bs = "batches r codes"
  let ?f = "resolve_chunk L client r locale"
  let ?m = "fst (resolve L client r locale urns log)"
  have run: "resolve_urns L client urns endpoint locale log
      = Inr (?m, snd (resolve L client r locale urns log))"
    using variant by (simp add: resolve_urns_def)
  have m: "urns \<noteq> [] \<Longrightarrow> ?m = resolved (fold ?f ?bs st0)"
    by (simp add: resolve_def Let_def batch_resolve_fold codes start)
  have raised: "set (?bs ! j) \<subseteq> fst ` set ?m"
    if "j < length ?bs" "urns \<noteq> []"
      "snd (request_chunk L client r locale (?bs ! j) (fold ?f (take j ?bs) st0)) \<noteq> None"
    for j
    using fold_resolve_chunk_raised [OF that(1,3)] by (simp only: m [OF that(2)])
  have failed: "set (?bs ! j) \<subseteq> fst ` set ?m"
    if "j < length ?bs" "urns \<noteq> []"
      "isl (client (length log + j) (resolver_url r locale (?bs ! j)) (resolver_endpoint r))"
    for j
  proof -
    from that(3) obtain e where
      e: "client (length (requests st0) + j) (resolver_url r locale (?bs ! j)) (resolver_endpoint r) = Inl e"
      by (auto simp: isl_def start)
    from fold_resolve_chunk_failed [of j ?bs client st0 r "locale" e L, OF that(1) e]
    show ?thesis by (simp only: m [OF that(2)])
  qed
  have all: "map_of ?m (extract_code urn) = Some (JStr (extract_code urn))"
    if fails: "\<forall>n u ep. isl (client n u ep)" and urn: "urn \<in> set urns" for urn
  proof -
    from urn have ne: "urns \<noteq> []" by auto
    from urn order have "extract_code urn \<in> set codes" by simp
    then have cov: "extract_code urn \<in> \<Union> (set ` set ?bs)"
      by (rule batches_cover)
    have "map_of ?m (extract_code urn)
        = (if extract_code urn \<in> \<Union> (set ` set ?bs) \<and> map_of (resolved st0) (extract_code urn) = None
           then Some (JStr (extract_code urn)) else map_of (resolved st0) (extract_code urn))"
      unfolding m [OF ne] using fails by (intro fold_all_failed) simp
    with cov show ?thesis by (simp add: start)
  qed
  have step_raised: "snd (request_chunk L client r locale chunk st) \<noteq> None
          \<longrightarrow> map_of (resolved (resolve_chunk L client r locale chunk st)) c
               = (if c \<in> set chunk \<and> map_of (resolved st1) c = None then Some (JStr c)
                  else map_of (resolved st1) c)"
    unfolding step using resolve_chunk_raised_lookup [of L client r "locale" chunk st c] by blast
  have step_failed: "isl (client (length (requests st)) (resolver_url r locale chunk) (resolver_endpoint r))
          \<longrightarrow> snd (request_chunk L client r locale chunk st) \<noteq> None
              \<and> resolved st1 = resolved st"
    unfolding step
    using request_failed_raises(1) [of client st r "locale" chunk L]
      request_failed_raises(2) [of client st r "locale" chunk L] by blast
  have step_results: "r \<noteq> Functions \<and> r \<noteq> Seniorities
          \<and> client (length (requests st)) (resolver_url r locale chunk) (resolver_endpoint r) = Inr (JObj body)
          \<and> map_of body ''results'' = Some (JObj items) \<and> distinct (map fst items)
          \<and> (\<forall>(code, result) \<in> set items. is_dict result \<longrightarrow> path_readable result (name_path r))
          \<longrightarrow> snd (request_chunk L client r locale chunk st) = None
              \<and> map_of (resolved (resolve_chunk L client r locale chunk st)) c
               = (case map_of items c of
                    None \<Rightarrow> map_of (resolved st) c
                  | Some result \<Rightarrow>
                      Some (if is_dict result then fetched_name r result c else JStr c))"
    by (intro impI, elim conjE, rule resolve_chunk_results_fetched; assumption)
  have step_elements: "(r = Functions \<or> r = Seniorities)
          \<and> client (length (requests st)) (resolver_url r locale chunk) (resolver_endpoint r) = Inr (JObj body)
          \<and> map_of body ''elements'' = Some (JList elements)
          \<and> (\<forall>el \<in> set elements. is_dict el \<and> element_code L el \<in> set chunk
                 \<longrightarrow> path_readable el (name_path r))
          \<longrightarrow> snd (request_chunk L client r locale chunk st) = None
              \<and> map_of (resolved (resolve_chunk L client r locale chunk st)) c
               = (case List.find (\<lambda>el. is_dict el \<and> element_code L el = c) (rev elements) of
                    None \<Rightarrow> map_of (resolved st) c
                  | Some el \<Rightarrow>
                      if c \<in> set chunk then Some (fetched_name r el c)
                      else map_of (resolved st) c)"
    by (intro impI, elim conjE, rule resolve_chunk_elements_fetched; assumption)
  have refine: "path_readable x (name_path r)
          \<longrightarrow> result_name r x c = Inr (fetched_name r x c)
              \<and> (r = Functions \<or> r = Seniorities
                   \<longrightarrow> localized_name x (JStr c) = Inr (fetched_name r x c))"
    using result_name_fetched [of x r c] element_name_fetched [of r x c] by blast
  have missing: "r \<noteq> Titles \<and> r \<noteq> Organizations \<and> path_value x (name_path r) = None
          \<longrightarrow> fetched_name r x c = JStr c"
    by (simp add: fetched_name_def)
  have titles: "r = Titles \<and> true_value (path_value x [''name'', ''localized'', ''en_US'']) = None
          \<longrightarrow> fetched_name r x c
               = (case true_value (path_value x [''name'', ''default'']) of
                    Some b \<Rightarrow> b | None \<Rightarrow> JStr c)"
    by (simp add: fetched_name_def)
  have orgs: "r = Organizations \<and> true_value (path_value x [''name'', ''localized'', ''en_US'']) = None
          \<longrightarrow> fetched_name r x c
               = (case true_value (path_value x [''localizedName'']) of
                    Some b \<Rightarrow> b | None \<Rightarrow> JStr c)"
    by (simp add: fetched_name_def)
  have whole: "\<exists>m log'. resolve_urns L client urns endpoint locale log = Inr (m, log')
     \<and> (urns \<noteq> [] \<longrightarrow>
          m = resolved (fold (resolve_chunk L client r locale) (batches r codes) st0))
     \<and> (\<forall>j < length (batches r codes).
          urns \<noteq> [] \<and>
          snd (request_chunk L client r locale (batches r codes ! j)
                 (fold (resolve_chunk L client r locale) (take j (batches r codes)) st0)) \<noteq> None
          \<longrightarrow> set (batches r codes ! j) \<subseteq> fst ` set m)
     \<and> (\<forall>j < length (batches r codes).
          urns \<noteq> [] \<and>
          isl (client (length log + j) (resolver_url r locale (batches r codes ! j)) (resolver_endpoint r))
          \<longrightarrow> set (batches r codes ! j) \<subseteq> fst ` set m)
     \<and> ((\<forall>n u ep. isl (client n u ep))
          \<longrightarrow> (\<forall>urn \<in> set urns. map_of m (extract_code urn) = Some (JStr (extract_code urn))))"
    apply (rule exI [of _ ?m])
    apply (rule exI [of _ "snd (resolve L client r locale urns log)"])
    apply (intro conjI)
        apply (rule run)
       apply (rule impI, erule m)
      apply (intro allI impI, elim conjE, erule (2) raised)
     apply (intro allI impI, elim conjE, erule (2) failed)
    apply (intro impI ballI, erule (1) all)
    done
  show ?thesis
    apply (intro conjI)
            apply (rule whole)
           apply (rule step_raised)
          apply (rule step_failed)
         apply (rule step_results)
        apply (rule step_elements)
       apply (rule refine)
      apply (rule missing)
     apply (rule titles)
    apply (rule orgs)
    done
qed

theorem resolve_urns_entries_witness:
  "map_of (fst (projr (resolve_urns example_lib failing_client
        [''urn:li:geo:101'', ''urn:li:geo:102''] ''geo'' None []))) ''101'' = Some (JStr ''101'')
   \<and> map_of (fst (projr (resolve_urns example_lib failing_client
        [''urn:li:geo:101'', ''urn:li:geo:102''] ''geo'' None []))) ''102'' = Some (JStr ''102'')
   \<and> map_of (resolved (resolve_chunk example_lib titles_client Titles None [''1'', ''2'']
        \<lparr>resolved = [], cache = [], requests = []\<rparr>)) ''1'' = Some (JStr ''Engineer'')
   \<and> map_of (resolved (resolve_chunk example_lib titles_client Titles None [''1'', ''2'']
        \<lparr>resolved = [], cache = [], requests = []\<rparr>)) ''2'' = None
   \<and> map_of (resolved (resolve_chunk example_lib functions_client Functions (Some ''en_US'') [''1'', ''2'']
        \<lparr>resolved = [], cache = [], requests = []\<rparr>)) ''1'' = Some (JStr ''Accounting'')
   \<and> map_of (resolved (resolve_chunk example_lib functions_client Functions (Some ''en_US'') [''1'', ''2'']
        \<lparr>resolved = [], cache = [], requests = []\<rparr>)) ''2'' = None
   \<and> map_of (resolved (resolve_chunk example_lib broken_titles_client Titles None [''1'', ''2'']
        \<lparr>resolved = [], cache = [], requests = []\<rparr>)) ''1'' = Some (JStr ''1'')
   \<and> map_of (resolved (resolve_chunk example_lib broken_titles_client Titles None [''1'', ''2'']
        \<lparr>resolved = [], cache = [], requests = []\<rparr>)) ''2'' = Some (JStr ''2'')
   \<and> fetched_name Titles (JObj [(''name'', JObj [(''default'', JStr ''Chief'')])]) ''1'' = JStr ''Chief''
   \<and> fetched_name Organizations (JObj [(''localizedName'', JStr ''LinkedIn'')]) ''1'' = JStr ''LinkedIn''
   \<and> fetched_name Geo (JObj [(''defaultLocalizedName'', JObj [])]) ''101'' = JStr ''101''"
proof -
  let ?s0 = "\<lparr>resolved = [], cache = [], requests = []\<rparr>"
  have geo: "create_resolver ''geo'' = Inr Geo"
    and titles: "create_resolver ''titles'' = Inr Titles"
    and funcs: "create_resolver ''functions'' = Inr Functions"
    and orgs: "create_resolver ''organizations'' = Inr Organizations"
    by (simp_all add: create_resolver_def)
  have c1: "[''101'', ''102''] = set_order example_lib (map extract_code [''urn:li:geo:101'', ''urn:li:geo:102''])"
    and c2: "[''1'', ''2''] = set_order example_lib (map extract_code [''urn:li:title:1'', ''urn:li:title:2''])"
    and c3: "[''1'', ''2''] = set_order example_lib (map extract_code [''urn:li:function:1'', ''urn:li:function:2''])"
    and c4: "[''1'', ''2''] = set_order example_lib (map extract_code [''urn:li:organization:1'', ''urn:li:organization:2''])"
    by (simp_all add: example_lib_def extract_code_def)
  have o1: "set [''101'', ''102''] = extract_code ` set [''urn:li:geo:101'', ''urn:li:geo:102'']"
    and o2: "set [''1'', ''2''] = extract_code ` set [''urn:li:title:1'', ''urn:li:title:2'']"
    and o3: "set [''1'', ''2''] = extract_code ` set [''urn:li:function:1'', ''urn:li:function:2'']"
    and o4: "set [''1'', ''2''] = extract_code ` set [''urn:li:organization:1'', ''urn:li:organization:2'']"
    by (simp_all add: extract_code_def)
  have fails: "\<forall>n u ep. isl (failing_client n u ep)"
    by (simp add: failing_client_def)
  have "\<exists>m log'. resolve_urns example_lib failing_client
        [''urn:li:geo:101'', ''urn:li:geo:102''] ''geo'' None [] = Inr (m, log')
      \<and> ((\<forall>n u ep. isl (failing_client n u ep))
          \<longrightarrow> (\<forall>urn \<in> set [''urn:li:geo:101'', ''urn:li:geo:102''].
                 map_of m (extract_code urn) = Some (JStr (extract_code urn))))"
    using resolve_urns_entries [OF geo c1 o1 refl refl,
        where client = failing_client and log = "[]", THEN conjunct1]
    by blast
  with fails
  have a: "map_of (fst (projr (resolve_urns example_lib failing_client
        [''urn:li:geo:101'', ''urn:li:geo:102''] ''geo'' None []))) ''101'' = Some (JStr ''101'')
   \<and> map_of (fst (projr (resolve_urns example_lib failing_client
        [''urn:li:geo:101'', ''urn:li:geo:102''] ''geo'' None []))) ''102'' = Some (JStr ''102'')"
    by (auto simp: extract_code_def)
  let ?engineer = "JObj [(''name'', JObj [(''localized'', JObj [(''en_US'', JStr ''Engineer'')])])]"
  have items: "distinct (map fst [(''1'', ?engineer)])"
    "\<forall>(code, result) \<in> set [(''1'', ?engineer)]. is_dict result \<longrightarrow> path_readable result (name_path Titles)"
    "fetched_name Titles ?engineer ''1'' = JStr ''Engineer''"
    by (simp_all add: name_path_def fetched_name_def true_value_def)
  have b: "map_of (resolved (resolve_chunk example_lib titles_client Titles None [''1'', ''2''] ?s0)) c
      = (case map_of [(''1'', ?engineer)] c of
           None \<Rightarrow> None
         | Some result \<Rightarrow> Some (if is_dict result then fetched_name Titles result c else JStr c))" for c
    using items(1,2) resolve_urns_entries [OF titles c2 o2 refl refl,
        where client = titles_client and st = ?s0
          and chunk = "[''1'', ''2'']" and c = c
          and body = "[(''results'', JObj [(''1'', ?engineer)])]"
          and items = "[(''1'', ?engineer)]",
        THEN conjunct2, THEN conjunct2, THEN conjunct2, THEN conjunct1]
    by (simp add: titles_client_def)
  let ?accounting = "JObj [(''id'', JInt 1),
               (''name'', JObj [(''localized'', JObj [(''en_US'', JStr ''Accounting'')])])]"
  have els: "\<forall>el \<in> set [?accounting].
        is_dict el \<and> element_code example_lib el \<in> set [''1'', ''2'']
          \<longrightarrow> path_readable el (name_path Functions)"
    by (simp add: name_path_def)
  have code1: "element_code example_lib ?accounting = ''1''"
    "fetched_name Functions ?accounting ''1'' = JStr ''Accounting''"
    by (simp_all add: element_code_def str_int_def digit_char_def fetched_name_def name_path_def)
  have d: "map_of (resolved (resolve_chunk example_lib functions_client Functions (Some ''en_US'') [''1'', ''2''] ?s0)) c
      = (case List.find (\<lambda>el. is_dict el \<and> element_code example_lib el = c) (rev [?accounting]) of
           None \<Rightarrow> None
         | Some el \<Rightarrow> if c \<in> set [''1'', ''2''] then Some (fetched_name Functions el c) else None)" for c
    using els resolve_urns_entries [OF funcs c3 o3 refl refl,
        where client = functions_client and st = ?s0
          and chunk = "[''1'', ''2'']" and c = c
          and body = "[(''elements'', JList [?accounting])]"
          and elements = "[?accounting]",
        THEN conjunct2, THEN conjunct2, THEN conjunct2, THEN conjunct2, THEN conjunct1]
    by (simp add: functions_client_def)
  have raised: "snd (request_chunk example_lib broken_titles_client Titles None [''1'', ''2''] ?s0) \<noteq> None"
    and st1: "resolved (fst (request_chunk example_lib broken_titles_client Titles None [''1'', ''2''] ?s0)) = []"
    by (simp_all add: request_chunk_def Let_def broken_titles_client_def process_response_def
          py_item_def localized_name_def)
  have e: "map_of (resolved (resolve_chunk example_lib broken_titles_client Titles None [''1'', ''2''] ?s0)) c
      = (if c \<in> set [''1'', ''2''] then Some (JStr c) else None)" for c
    using raised resolve_urns_entries [OF titles c2 o2 refl refl,
        where client = broken_titles_client and st = ?s0 and chunk = "[''1'', ''2'']" and c = c,
        THEN conjunct2, THEN conjunct1]
    by (simp add: st1)
  have f: "fetched_name Titles (JObj [(''name'', JObj [(''default'', JStr ''Chief'')])]) ''1'' = JStr ''Chief''"
    using resolve_urns_entries [OF titles c2 o2 refl refl,
        where x = "JObj [(''name'', JObj [(''default'', JStr ''Chief'')])]" and c = "''1''", THEN conjunct2, THEN conjunct2, THEN conjunct2, THEN conjunct2, THEN conjunct2, THEN conjunct2, THEN conjunct2, THEN conjunct1]
    by (simp add: true_value_def)
  have g: "fetched_name Organizations (JObj [(''localizedName'', JStr ''LinkedIn'')]) ''1'' = JStr ''LinkedIn''"
    using resolve_urns_entries [OF orgs c4 o4 refl refl,
        where x = "JObj [(''localizedName'', JStr ''LinkedIn'')]" and c = "''1''", THEN conjunct2, THEN conjunct2, THEN conjunct2, THEN conjunct2, THEN conjunct2, THEN conjunct2, THEN conjunct2, THEN conjunct2]
    by (simp add: true_value_def)
  have h: "fetched_name Geo (JObj [(''defaultLocalizedName'', JObj [])]) ''101'' = JStr ''101''"
    using resolve_urns_entries [OF geo c1 o1 refl refl,
        where x = "JObj [(''defaultLocalizedName'', JObj [])]" and c = "''101''", THEN conjunct2, THEN conjunct2, THEN conjunct2, THEN conjunct2, THEN conjunct2, THEN conjunct2, THEN conjunct1]
    by (simp add: name_path_def)
  show ?thesis
    using a b [of "''1''"] b [of "''2''"] d [of "''1''"] d [of "''2''"] e [of "''1''"] e [of "''2''"]
      items(3) code1 f g h
    by simp
qed

text \<open>
  The functions resolver, asked for functions 1 and 2 and answered with function 1 only:
  the request succeeds, and the mapping has no entry for code 2.
\<close>

theorem resolve_urns_absent_code:
  "resolve_urns example_lib functions_client [''urn:li:function:1'', ''urn:li:function:2'']
       ''functions'' (Some ''en_US'') []
     = Inr ([(''1'', JStr ''Accounting'')],
            [(''https://api.linkedin.com/v2/functions?locale=en_US'', ''functions'')])
   \<and> extract_code ''urn:li:function:2'' = ''2''
   \<and> map_of [(''1'', JStr ''Accounting'')] ''2'' = None"
  by code_simp

subsection \<open>Two hundred codes\<close>

text \<open>
  C7. Given 200 distinct codes, every resolver variant but the seniorities one issues
  exactly two requests, for the first 150 codes and for the last 50. If the first request
  is answered, its response is processed without an exception and gives a name to each of
  the first 150 codes and none to the last 50, and the second request raises, then the
  first 150 codes map to the fetched names and the last 50 map to themselves. The
  seniorities resolver issues exactly one request, for all codes; if it raises, all 200
  codes map to themselves.
\<close>

theorem batch_resolve_200_codes:
  assumes "distinct codes" and "length codes = 200"
    and "m = resolved (batch_resolve L client r locale codes log)"
    and "ep = resolver_endpoint r"
  shows "(r \<noteq> Seniorities \<longrightarrow>
            requests (batch_resolve L client r locale codes log)
              = log @ [(resolver_url r locale (take 150 codes), ep),
                       (resolver_url r locale (drop 150 codes), ep)])
     \<and> (r \<noteq> Seniorities
          \<and> client (length log) (resolver_url r locale (take 150 codes)) ep = Inr response
          \<and> process_response L r (take 150 codes) response
                \<lparr>resolved = [], cache = [],
                 requests = log @ [(resolver_url r locale (take 150 codes), ep)]\<rparr> = (st1, None)
          \<and> (\<forall>c \<in> set (take 150 codes). map_of (resolved st1) c = Some (names c))
          \<and> (\<forall>c \<in> set (drop 150 codes). map_of (resolved st1) c = None)
          \<and> isl (client (length log + 1) (resolver_url r locale (drop 150 codes)) ep)
          \<longrightarrow> (\<forall>c \<in> set (take 150 codes). map_of m c = Some (names c))
              \<and> (\<forall>c \<in> set (drop 150 codes). map_of m c = Some (JStr c)))
     \<and> (r = Seniorities \<longrightarrow>
            requests (batch_resolve L client r locale codes log)
              = log @ [(resolver_url r locale codes, ep)])
     \<and> (r = Seniorities \<and> isl (client (length log) (resolver_url r locale codes) ep)
          \<longrightarrow> (\<forall>c \<in> set codes. map_of m c = Some (JStr c)))"
proof -
  let ?st0 = "\<lparr>resolved = [], cache = [], requests = log\<rparr>"
  let ?c1 = "take 150 codes" and ?c2 = "drop 150 codes"
  note chunks = code_chunks_200 [OF assms(2)]
  have two: "requests (batch_resolve L client r locale codes log)
              = log @ [(resolver_url r locale ?c1, ep), (resolver_url r locale ?c2, ep)]"
    if "r \<noteq> Seniorities"
    using that by (simp add: batch_resolve_def chunks resolve_chunk_requests assms(4))
  have one: "requests (batch_resolve L client r locale codes log)
              = log @ [(resolver_url r locale codes, ep)]"
    if "r = Seniorities"
    using that by (simp add: batch_resolve_def resolve_chunk_requests assms(4))
  have sen: "map_of m c = Some (JStr c)"
    if "r = Seniorities" "isl (client (length log) (resolver_url r locale codes) ep)" "c \<in> set codes"
    for c
  proof -
    have "isl (client (length (requests ?st0)) (resolver_url r locale codes) (resolver_endpoint r))"
      using that(2) assms(4) by simp
    from resolve_chunk_failed_lookup [of client ?st0 r "locale" codes L c] this that(1,3) show ?thesis
      by (simp add: assms(3) batch_resolve_def)
  qed
  have second: "(\<forall>c \<in> set ?c1. map_of m c = Some (names c))
              \<and> (\<forall>c \<in> set ?c2. map_of m c = Some (JStr c))"
    if r: "r \<noteq> Seniorities"
      and ok: "client (length log) (resolver_url r locale ?c1) ep = Inr response"
      and pr: "process_response L r ?c1 response
                \<lparr>resolved = [], cache = [],
                 requests = log @ [(resolver_url r locale ?c1, ep)]\<rparr> = (st1, None)"
      and n1: "\<forall>c \<in> set ?c1. map_of (resolved st1) c = Some (names c)"
      and n2: "\<forall>c \<in> set ?c2. map_of (resolved st1) c = None"
      and fail: "isl (client (length log + 1) (resolver_url r locale ?c2) ep)"
  proof -
    have first: "resolve_chunk L client r locale ?c1 ?st0 = st1"
      using resolve_chunk_ok [of client ?st0 r "locale" ?c1 response L] ok pr assms(4) by simp
    have "requests st1 = log @ [(resolver_url r locale ?c1, ep)]"
      using resolve_chunk_requests [of L client r "locale" ?c1 ?st0] first assms(4) by simp
    then have len: "length (requests st1) = length log + 1" by simp
    have "isl (client (length (requests st1)) (resolver_url r locale ?c2) (resolver_endpoint r))"
      using fail len assms(4) by simp
    then have look: "map_of (resolved (resolve_chunk L client r locale ?c2 st1)) c
        = (if c \<in> set ?c2 \<and> map_of (resolved st1) c = None then Some (JStr c)
           else map_of (resolved st1) c)" for c
      using resolve_chunk_failed_lookup [of client st1 r "locale" ?c2 L c] by simp
    have m: "m = resolved (resolve_chunk L client r locale ?c2 st1)"
      using r first by (simp add: assms(3) batch_resolve_def chunks)
    show ?thesis
      using n1 n2 by (auto simp: m look)
  qed
  show ?thesis
    using two one sen second by blast
qed

theorem batch_resolve_200_codes_witness:
  "requests (batch_resolve example_lib titles_client200 Titles None codes200 [])
     = [(resolver_url Titles None (take 150 codes200), ''titles''),
        (resolver_url Titles None (drop 150 codes200), ''titles'')]
   \<and> map_of (resolved (batch_resolve example_lib titles_client200 Titles None codes200 [])) ''0''
       = Some (JStr ''Title 0'')
   \<and> map_of (resolved (batch_resolve example_lib titles_client200 Titles None codes200 [])) ''149''
       = Some (JStr ''Title 149'')
   \<and> map_of (resolved (batch_resolve example_lib titles_client200 Titles None codes200 [])) ''150''
       = Some (JStr ''150'')
   \<and> map_of (resolved (batch_resolve example_lib titles_client200 Titles None codes200 [])) ''199''
       = Some (JStr ''199'')"
proof -
  let ?items = "map (\<lambda>c. (c, JObj [(''name'', JObj [(''default'', title_of c)])])) (take 150 codes200)"
  let ?st0 = "\<lparr>resolved = [], cache = [],
       requests = [] @ [(resolver_url Titles None (take 150 codes200), ''titles'')]\<rparr>"
  let ?st1 = "fst (results_loop Titles ?items ?st0)"
  let ?m = "resolved (batch_resolve example_lib titles_client200 Titles None codes200 [])"
  have d1: "distinct (take 150 codes200)"
    using distinct_codes200 by (rule distinct_take)
  have disj: "c \<notin> set (take 150 codes200)" if "c \<in> set (drop 150 codes200)" for c
    using set_take_disj_set_drop_if_distinct [OF distinct_codes200, of 150 150] that by auto
  have dist: "distinct (map fst ?items)"
    using d1 by (simp add: comp_def)
  have readable: "\<forall>(code, result) \<in> set ?items. is_dict result \<longrightarrow> \<not> isl (result_name Titles result code)"
    by (auto simp: title_name simp del: result_name.simps)
  note loop = results_loop_lookup [OF dist readable, of ?st0]
  have ok: "titles_client200 (length []) (resolver_url Titles None (take 150 codes200)) ''titles''
      = Inr (JObj [(''results'', JObj ?items)])"
    by (simp add: titles_client200_def)
  have pr: "process_response example_lib Titles (take 150 codes200) (JObj [(''results'', JObj ?items)]) ?st0
      = (?st1, None)"
    using process_response_results [of Titles "[(''results'', JObj ?items)]" ?items example_lib
        "take 150 codes200" ?st0] loop
    by (simp add: prod_eq_iff)
  have n1: "\<forall>c \<in> set (take 150 codes200). map_of (resolved ?st1) c = Some (title_of c)"
    using loop by (simp add: map_of_keyed title_name del: result_name.simps)
  have n2: "\<forall>c \<in> set (drop 150 codes200). map_of (resolved ?st1) c = None"
    using loop disj by (simp add: map_of_keyed)
  have fail: "isl (titles_client200 (length [] + 1) (resolver_url Titles None (drop 150 codes200)) ''titles'')"
    by (simp add: titles_client200_def)
  have r: "Titles \<noteq> Seniorities" by simp
  note inst = batch_resolve_200_codes [OF distinct_codes200 length_codes200, of ?m example_lib
      titles_client200 Titles None "[]" "''titles''" "JObj [(''results'', JObj ?items)]" ?st1 title_of]
  have reqs: "requests (batch_resolve example_lib titles_client200 Titles None codes200 [])
     = [(resolver_url Titles None (take 150 codes200), ''titles''),
        (resolver_url Titles None (drop 150 codes200), ''titles'')]"
    using inst by simp
  have names: "(\<forall>c \<in> set (take 150 codes200). map_of ?m c = Some (title_of c))
      \<and> (\<forall>c \<in> set (drop 150 codes200). map_of ?m c = Some (JStr c))"
    using inst r ok pr n1 n2 fail by simp
  have in1: "str_int (int n) \<in> set (take 150 codes200)" if "n < 150" for n
  proof -
    have "n \<in> set [0 ..< 150]" unfolding set_upt using that by simp
    then show ?thesis unfolding take_codes200 set_map by (rule imageI)
  qed
  have in2: "str_int (int n) \<in> set (drop 150 codes200)" if "150 \<le> n" "n < 200" for n
  proof -
    have "n \<in> set [150 ..< 200]" unfolding set_upt using that by simp
    then show ?thesis unfolding drop_codes200 set_map by (rule imageI)
  qed
  have strs: "str_int (int 0) = ''0''" "str_int (int 149) = ''149''"
    "str_int (int 150) = ''150''" "str_int (int 199) = ''199''"
    by (simp_all add: str_int_def digit_char_def)
  have mem1: "''0'' \<in> set (take 150 codes200)" "''149'' \<in> set (take 150 codes200)"
    using in1 [of 0] in1 [of 149] by (simp_all only: strs)
  have mem2: "''150'' \<in> set (drop 150 codes200)" "''199'' \<in> set (drop 150 codes200)"
    using in2 [of 150] in2 [of 199] by (simp_all only: strs)
  from names mem1 mem2 reqs show ?thesis
    by (simp add: title_of_def)
qed

text \<open>The seniorities resolver, given two hundred distinct codes, issues one request.\<close>

theorem seniorities_one_request:
  "distinct codes200 \<and> length codes200 = 200
   \<and> requests (batch_resolve example_lib failing_client Seniorities None codes200 [])
       = [(''https://api.linkedin.com/v2/seniorities'', ''seniorities'')]"
  by (simp add: distinct_codes200 length_codes200 batch_resolve_def resolve_chunk_requests)

section \<open>Properties of the merged records\<close>


lemma map_of_fold_update:
  "distinct (map fst e) \<Longrightarrow>
     map_of (fold (\<lambda>(k, v). AList.update k v) e d) = map_of d ++ map_of e"
proof (induction e arbitrary: d)
  case Nil
  show ?case by simp
next
  case (Cons kv e)
  obtain k v where kv: "kv = (k, v)" by (cases kv)
  from Cons.prems kv have notin: "map_of e k = None" and d: "distinct (map fst e)"
    by (simp_all add: map_of_eq_None_iff)
  have "map_of (fold (\<lambda>(k, v). AList.update k v) (kv # e) d)
      = map_of (AList.update k v d) ++ map_of e"
    using Cons.IH [OF d, of "AList.update k v d"] kv by simp
  also have "\<dots> = map_of d ++ map_of (kv # e)"
    using notin kv by (auto simp: update_conv' map_add_def fun_eq_iff split: option.splits)
  finally show ?case .
qed

lemma map_of_dict_update:
  "distinct (map fst e) \<Longrightarrow> map_of (dict_update d e) = map_of d ++ map_of e"
  by (simp add: dict_update_def map_of_fold_update)

lemma distinct_tag_element:
  "distinct (map fst kvs) \<Longrightarrow> distinct (map fst (tag_element pivot pv kvs))"
  by (simp add: tag_element_def distinct_update)

lemma merge_element_Inr:
  assumes "merge_element L pivot collect element (recs, urns) = Inr (recs', urns')"
  shows "\<exists>kvs k pv. element = JObj kvs \<and> primary_key L element = Inr k
           \<and> pivot_value element = Inr pv
           \<and> urns' = (if collect then urns @ [pv] else urns)
           \<and> recs' = (case map_of recs k of
                        Some record \<Rightarrow> AList.update k (dict_update record (tagged pivot element)) recs
                      | None \<Rightarrow> recs @ [(k, tagged pivot element)])"
proof -
  from assms obtain ts pv kvs s where parts: "start_of element = Inr ts" "pivot_value element = Inr pv"
      "element = JObj kvs" "string_start L ts = Inr s" "hashable pv"
    and urns: "urns' = (if collect then urns @ [pv] else urns)"
    and recs: "recs' = (case map_of recs (key_value pv, s) of
                        Some record \<Rightarrow> AList.update (key_value pv, s)
                            (dict_update record (tag_element pivot pv kvs)) recs
                      | None \<Rightarrow> recs @ [((key_value pv, s), tag_element pivot pv kvs)])"
    by (cases "start_of element"; cases "pivot_value element"; cases element)
       (auto simp: merge_element_def split: if_splits sum.splits option.splits
             elim!: seq.elims [where ?'a = string])
  have k: "primary_key L element = Inr (key_value pv, s)"
    using parts by (simp add: primary_key_def)
  have t: "tagged pivot element = tag_element pivot pv kvs"
    using parts by (simp add: tagged_def)
  show ?thesis
    using parts(2,3) k urns recs unfolding t by blast
qed


lemma merged_fields_snoc:
  "merged_fields L pivot k (es @ [e])
     = (if primary_key L e = Inr k then merged_fields L pivot k es ++ map_of (tagged pivot e)
        else merged_fields L pivot k es)"
  by (simp add: merged_fields_def)

lemma merged_fields_none:
  "filter (\<lambda>e. primary_key L e = Inr k) es = [] \<Longrightarrow> merged_fields L pivot k es = Map.empty"
  by (simp add: merged_fields_def)

lemma merge_element_step:
  assumes run: "merge_element L pivot collect element (recs, urns) = Inr (recs', urns')"
    and dk: "distinct (map fst recs)"
    and wf: "\<forall>kvs. element = JObj kvs \<longrightarrow> distinct (map fst kvs)"
  shows "\<exists>k r'. primary_key L element = Inr k \<and> distinct (map fst recs')
           \<and> map_of recs' = (map_of recs)(k \<mapsto> r')
           \<and> map_of r' = (case map_of recs k of None \<Rightarrow> Map.empty | Some r \<Rightarrow> map_of r)
                            ++ map_of (tagged pivot element)"
proof -
  from merge_element_Inr [OF run] obtain kvs k pv where el: "element = JObj kvs"
    and k: "primary_key L element = Inr k" and pv: "pivot_value element = Inr pv"
    and recs': "recs' = (case map_of recs k of
                        Some record \<Rightarrow> AList.update k (dict_update record (tagged pivot element)) recs
                      | None \<Rightarrow> recs @ [(k, tagged pivot element)])"
    by blast
  have t: "tagged pivot element = tag_element pivot pv kvs"
    using el pv by (simp add: tagged_def)
  have dt: "distinct (map fst (tagged pivot element))"
    unfolding t using wf el by (simp add: distinct_tag_element)
  show ?thesis
  proof (cases "map_of recs k")
    case None
    then have notin: "k \<notin> fst ` set recs" by (simp add: map_of_eq_None_iff)
    have r: "recs' = recs @ [(k, tagged pivot element)]" using recs' None by simp
    have "distinct (map fst recs')" using dk notin r by simp
    moreover have "map_of recs' = (map_of recs)(k \<mapsto> tagged pivot element)"
      using None by (auto simp: r map_add_def fun_eq_iff split: option.splits)
    moreover have "map_of (tagged pivot element)
        = (case map_of recs k of None \<Rightarrow> Map.empty | Some r \<Rightarrow> map_of r) ++ map_of (tagged pivot element)"
      using None by simp
    ultimately show ?thesis using k by blast
  next
    case (Some old)
    have r: "recs' = AList.update k (dict_update old (tagged pivot element)) recs"
      using recs' Some by simp
    have "distinct (map fst recs')" using dk r by (simp add: distinct_update)
    moreover have "map_of recs' = (map_of recs)(k \<mapsto> dict_update old (tagged pivot element))"
      by (simp add: r update_conv')
    moreover have "map_of (dict_update old (tagged pivot element))
        = (case map_of recs k of None \<Rightarrow> Map.empty | Some r \<Rightarrow> map_of r) ++ map_of (tagged pivot element)"
      using Some by (simp add: map_of_dict_update [OF dt])
    ultimately show ?thesis using k by blast
  qed
qed

lemma merge_page_inv:
  assumes "merge_page L pivot collect es acc = Inr acc'"
    and "distinct (map fst (fst acc))"
    and "\<forall>k. (map_of (fst acc) k = None) = (filter (\<lambda>e. primary_key L e = Inr k) seen = [])"
    and "\<forall>k r. map_of (fst acc) k = Some r \<longrightarrow> map_of r = merged_fields L pivot k seen"
    and "\<forall>kvs. JObj kvs \<in> set es \<longrightarrow> distinct (map fst kvs)"
  shows "distinct (map fst (fst acc'))
     \<and> (\<forall>k. (map_of (fst acc') k = None) = (filter (\<lambda>e. primary_key L e = Inr k) (seen @ es) = []))
     \<and> (\<forall>k r. map_of (fst acc') k = Some r \<longrightarrow> map_of r = merged_fields L pivot k (seen @ es))"
  using assms
proof (induction es arbitrary: acc seen)
  case Nil
  then show ?case by simp
next
  case (Cons e es)
  obtain recs urns where acc: "acc = (recs, urns)" by (cases acc)
  from Cons.prems(1) obtain acc1 where step: "merge_element L pivot collect e acc = Inr acc1"
    and rest: "merge_page L pivot collect es acc1 = Inr acc'"
    by (cases "merge_element L pivot collect e acc") auto
  obtain recs1 urns1 where acc1: "acc1 = (recs1, urns1)" by (cases acc1)
  have wf_e: "\<forall>kvs. e = JObj kvs \<longrightarrow> distinct (map fst kvs)"
    and wf_es: "\<forall>kvs. JObj kvs \<in> set es \<longrightarrow> distinct (map fst kvs)"
    using Cons.prems(5) by auto
  from Cons.prems(2) acc have dk: "distinct (map fst recs)" by simp
  from merge_element_step [OF step [unfolded acc acc1] dk wf_e] obtain k r'
    where k: "primary_key L e = Inr k" and d1: "distinct (map fst recs1)"
      and m1: "map_of recs1 = (map_of recs)(k \<mapsto> r')"
      and r': "map_of r' = (case map_of recs k of None \<Rightarrow> Map.empty | Some r \<Rightarrow> map_of r)
                            ++ map_of (tagged pivot e)"
    by blast
  have A: "\<forall>k'. (map_of recs k' = None) = (filter (\<lambda>e. primary_key L e = Inr k') seen = [])"
    and B: "\<forall>k' r. map_of recs k' = Some r \<longrightarrow> map_of r = merged_fields L pivot k' seen"
    using Cons.prems(3,4) acc by simp_all
  have A1: "\<forall>k'. (map_of (fst acc1) k' = None)
        = (filter (\<lambda>e. primary_key L e = Inr k') (seen @ [e]) = [])"
    using A k by (auto simp: acc1 m1)
  have old: "(case map_of recs k of None \<Rightarrow> Map.empty | Some r \<Rightarrow> map_of r)
        = merged_fields L pivot k seen"
  proof (cases "map_of recs k")
    case None
    with A [THEN spec, of k] have "filter (\<lambda>e. primary_key L e = Inr k) seen = []" by blast
    then show ?thesis using None by (simp add: merged_fields_none)
  next
    case (Some r)
    with B [THEN spec, of k] show ?thesis by simp
  qed
  have B1: "\<forall>k' r. map_of (fst acc1) k' = Some r \<longrightarrow> map_of r = merged_fields L pivot k' (seen @ [e])"
    using B k r' old by (auto simp: acc1 m1 merged_fields_snoc)
  have D1: "distinct (map fst (fst acc1))" using d1 acc1 by simp
  from Cons.IH [OF rest D1 A1 B1 wf_es] show ?case by simp
qed

lemma merge_pages_inv:
  assumes "merge_pages L pivot collect data acc = Inr acc'"
    and "distinct (map fst (fst acc))"
    and "\<forall>k. (map_of (fst acc) k = None) = (filter (\<lambda>e. primary_key L e = Inr k) seen = [])"
    and "\<forall>k r. map_of (fst acc) k = Some r \<longrightarrow> map_of r = merged_fields L pivot k seen"
    and "\<forall>kvs. JObj kvs \<in> set (elements_of data) \<longrightarrow> distinct (map fst kvs)"
  shows "distinct (map fst (fst acc'))
     \<and> (\<forall>k. (map_of (fst acc') k = None)
            = (filter (\<lambda>e. primary_key L e = Inr k) (seen @ elements_of data) = []))
     \<and> (\<forall>k r. map_of (fst acc') k = Some r
            \<longrightarrow> map_of r = merged_fields L pivot k (seen @ elements_of data))"
  using assms
proof (induction data arbitrary: acc seen)
  case Nil
  then show ?case by (simp add: elements_of_def)
next
  case (Cons page data)
  from Cons.prems(1) obtain es acc1 where it: "py_iter page = Inr es"
    and pg: "merge_page L pivot collect es acc = Inr acc1"
    and rest: "merge_pages L pivot collect data acc1 = Inr acc'"
    by (cases "py_iter page"; cases "merge_page L pivot collect (projr (py_iter page)) acc") auto
  have split: "elements_of (page # data) = es @ elements_of data"
    using it by (simp add: elements_of_def)
  have wf_es: "\<forall>kvs. JObj kvs \<in> set es \<longrightarrow> distinct (map fst kvs)"
    and wf_rest: "\<forall>kvs. JObj kvs \<in> set (elements_of data) \<longrightarrow> distinct (map fst kvs)"
    using Cons.prems(5) unfolding split by auto
  note one = merge_page_inv [OF pg Cons.prems(2,3,4) wf_es]
  from Cons.IH [OF rest one [THEN conjunct1] one [THEN conjunct2, THEN conjunct1]
      one [THEN conjunct2, THEN conjunct2] wf_rest]
  show ?case by (simp add: split)
qed


lemma merge_page_urns:
  assumes "merge_page L pivot collect es acc = Inr acc'"
  shows "snd acc' = snd acc @ (if collect then map (\<lambda>e. projr (pivot_value e)) es else [])"
  using assms
proof (induction es arbitrary: acc)
  case Nil
  then show ?case by simp
next
  case (Cons e es)
  obtain recs urns where acc: "acc = (recs, urns)" by (cases acc)
  from Cons.prems obtain acc1 where step: "merge_element L pivot collect e acc = Inr acc1"
    and rest: "merge_page L pivot collect es acc1 = Inr acc'"
    by (cases "merge_element L pivot collect e acc") auto
  obtain recs1 urns1 where acc1: "acc1 = (recs1, urns1)" by (cases acc1)
  from merge_element_Inr [OF step [unfolded acc acc1]] obtain pv
    where "pivot_value e = Inr pv" "urns1 = (if collect then urns @ [pv] else urns)"
    by blast
  with Cons.IH [OF rest] show ?case by (simp add: acc acc1)
qed

lemma merge_pages_urns:
  assumes "merge_pages L pivot collect data acc = Inr acc'"
  shows "snd acc' = snd acc @ (if collect then map (\<lambda>e. projr (pivot_value e)) (elements_of data) else [])"
  using assms
proof (induction data arbitrary: acc)
  case Nil
  then show ?case by (simp add: elements_of_def)
next
  case (Cons page data)
  from Cons.prems obtain es acc1 where it: "py_iter page = Inr es"
    and pg: "merge_page L pivot collect es acc = Inr acc1"
    and rest: "merge_pages L pivot collect data acc1 = Inr acc'"
    by (cases "py_iter page"; cases "merge_page L pivot collect (projr (py_iter page)) acc") auto
  have split: "elements_of (page # data) = es @ elements_of data"
    using it by (simp add: elements_of_def)
  from Cons.IH [OF rest] merge_page_urns [OF pg] show ?case
    by (simp add: split)
qed

lemma name_record_Inr:
  assumes "name_record names r = Inr r'"
  shows "\<exists>s. map_of r ''pivot_value'' = Some (JStr s)
           \<and> r' = AList.update ''pivot_value_name''
                  (case map_of names (extract_code s) of
                     None \<Rightarrow> JStr (extract_code s) | Some name \<Rightarrow> name) r"
  using assms
  by (auto simp: name_record_def py_item_def split: option.splits json.splits)

lemma name_records_lookup:
  assumes "name_records names recs = Inr named"
  shows "map fst named = map fst recs
     \<and> (\<forall>k. map_of named k = None \<longleftrightarrow> map_of recs k = None)
     \<and> (\<forall>k r'. map_of named k = Some r'
            \<longrightarrow> (\<exists>r. map_of recs k = Some r \<and> name_record names r = Inr r'))"
  using assms
proof (induction recs arbitrary: named)
  case Nil
  then show ?case by simp
next
  case (Cons kr recs)
  obtain k0 r0 where kr: "kr = (k0, r0)" by (cases kr)
  from Cons.prems kr obtain r1 others where one: "name_record names r0 = Inr r1"
    and rest: "name_records names recs = Inr others" and named: "named = (k0, r1) # others"
    by (cases "name_record names r0"; cases "name_records names recs") auto
  from Cons.IH [OF rest] one show ?case
    by (auto simp: named kr)
qed

lemma primary_key_dict:
  assumes "primary_key L e = Inr k"
  shows "\<exists>kvs pvs pv. e = JObj kvs \<and> map_of kvs ''pivotValues'' = Some pvs
           \<and> py_first pvs = Inr pv \<and> pivot_value e = Inr pv"
  using assms
  by (cases e; cases "start_of e"; cases "pivot_value e")
     (auto simp: primary_key_def start_of_def pivot_value_def py_item_def split: option.splits)

lemma tagged_fields:
  assumes "primary_key L e = Inr k"
  shows "map_of (tagged pivot e) ''pivot'' = Some pivot
     \<and> (\<exists>pvs pv. map_of (tagged pivot e) ''pivotValues'' = Some pvs \<and> py_first pvs = Inr pv
            \<and> map_of (tagged pivot e) ''pivot_value'' = Some pv \<and> pivot_value e = Inr pv)"
proof -
  from primary_key_dict [OF assms] obtain kvs pvs pv where "e = JObj kvs"
    "map_of kvs ''pivotValues'' = Some pvs" "py_first pvs = Inr pv" "pivot_value e = Inr pv"
    by blast
  then show ?thesis
    by (simp add: tagged_def tag_element_def update_conv')
qed

lemma merged_fields_last:
  assumes "filter (\<lambda>e. primary_key L e = Inr k) es \<noteq> []"
  shows "\<exists>e \<in> set es. primary_key L e = Inr k
           \<and> (\<forall>f v. map_of (tagged pivot e) f = Some v \<longrightarrow> merged_fields L pivot k es f = Some v)"
proof -
  let ?xs = "filter (\<lambda>e. primary_key L e = Inr k) es"
  have "last ?xs \<in> set ?xs" using assms by (rule last_in_set)
  then have mem: "last ?xs \<in> set es" and key: "primary_key L (last ?xs) = Inr k" by simp_all
  have "merged_fields L pivot k es
      = foldl (++) Map.empty (map (\<lambda>e. map_of (tagged pivot e)) (butlast ?xs @ [last ?xs]))"
    unfolding merged_fields_def by (simp only: append_butlast_last_id [OF assms])
  also have "\<dots> = foldl (++) Map.empty (map (\<lambda>e. map_of (tagged pivot e)) (butlast ?xs))
      ++ map_of (tagged pivot (last ?xs))"
    by simp
  finally have "\<forall>f v. map_of (tagged pivot (last ?xs)) f = Some v
      \<longrightarrow> merged_fields L pivot k es f = Some v"
    by (simp add: map_add_def)
  with mem key show ?thesis by blast
qed


lemma merge_responses_Inr:
  assumes "merge_responses L pivot data client stream_name log = Inr (full_records, log')"
  shows "\<exists>recs urns.
       merge_pages L pivot (client \<noteq> None \<and> resolution_config stream_name \<noteq> None) data ([], [])
         = Inr (recs, urns)
     \<and> ((client = None \<or> resolution_config stream_name = None) \<and> full_records = recs \<and> log' = log
        \<or> (\<exists>c endpoint locale us names.
              client = Some c \<and> resolution_config stream_name = Some (endpoint, locale)
              \<and> as_strings urns = Inr us
              \<and> resolve_urns L c us endpoint locale log = Inr (names, log')
              \<and> name_records names recs = Inr full_records))"
proof -
  let ?collect = "client \<noteq> None \<and> resolution_config stream_name \<noteq> None"
  from assms obtain recs urns where pages: "merge_pages L pivot ?collect data ([], []) = Inr (recs, urns)"
    by (cases "merge_pages L pivot ?collect data ([], [])") (auto simp: merge_responses_def)
  show ?thesis
  proof (cases "client = None \<or> resolution_config stream_name = None")
    case True
    then have "full_records = recs \<and> log' = log"
      using assms pages by (auto simp: merge_responses_def split: option.splits)
    with True pages show ?thesis by blast
  next
    case False
    then obtain c endpoint loc where c: "client = Some c"
      and cfg: "resolution_config stream_name = Some (endpoint, loc)" by auto
    from assms pages c cfg obtain us where us: "as_strings urns = Inr us"
      by (cases "as_strings urns") (auto simp: merge_responses_def)
    from assms pages c cfg us obtain names log1
      where res: "resolve_urns L c us endpoint loc log = Inr (names, log1)"
      by (cases "resolve_urns L c us endpoint loc log") (auto simp: merge_responses_def)
    from assms pages c cfg us res have "name_records names recs = Inr full_records \<and> log1 = log'"
      by (cases "name_records names recs") (auto simp: merge_responses_def)
    with pages c cfg us res show ?thesis by blast
  qed
qed

lemma merge_pages_start:
  assumes "merge_pages L pivot collect data ([], []) = Inr (recs, urns)"
    and "\<forall>kvs. JObj kvs \<in> set (elements_of data) \<longrightarrow> distinct (map fst kvs)"
  shows "distinct (map fst recs)"
    and "\<And>k. (map_of recs k = None) = (filter (\<lambda>e. primary_key L e = Inr k) (elements_of data) = [])"
    and "\<And>k r. map_of recs k = Some r \<Longrightarrow> map_of r = merged_fields L pivot k (elements_of data)"
    and "urns = (if collect then map (\<lambda>e. projr (pivot_value e)) (elements_of data) else [])"
proof -
  have "distinct (map fst (fst ([] :: records, [] :: json list)))"
    "\<forall>k. (map_of (fst ([] :: records, [] :: json list)) k = None)
        = (filter (\<lambda>e. primary_key L e = Inr k) [] = [])"
    "\<forall>k r. map_of (fst ([] :: records, [] :: json list)) k = Some r \<longrightarrow> map_of r = merged_fields L pivot k []"
    by simp_all
  from merge_pages_inv [OF assms(1) this assms(2)]
  have inv: "distinct (map fst recs)
     \<and> (\<forall>k. (map_of recs k = None)
            = (filter (\<lambda>e. primary_key L e = Inr k) (elements_of data) = []))
     \<and> (\<forall>k r. map_of recs k = Some r
            \<longrightarrow> map_of r = merged_fields L pivot k (elements_of data))"
    unfolding fst_conv append_Nil .
  from inv show "distinct (map fst recs)" by (rule conjunct1)
  from inv have a: "\<forall>k. (map_of recs k = None)
            = (filter (\<lambda>e. primary_key L e = Inr k) (elements_of data) = [])"
    by (elim conjE)
  from inv have b: "\<forall>k r. map_of recs k = Some r
            \<longrightarrow> map_of r = merged_fields L pivot k (elements_of data)"
    by (elim conjE)
  show "\<And>k. (map_of recs k = None) = (filter (\<lambda>e. primary_key L e = Inr k) (elements_of data) = [])"
    using a by (rule spec)
  show "\<And>k r. map_of recs k = Some r \<Longrightarrow> map_of r = merged_fields L pivot k (elements_of data)"
    using b by blast
  from merge_pages_urns [OF assms(1)]
  show "urns = (if collect then map (\<lambda>e. projr (pivot_value e)) (elements_of data) else [])"
    by simp
qed

lemma merged_records:
  assumes run: "merge_responses L pivot data client stream_name log = Inr (full_records, log')"
    and decoded: "\<forall>kvs. JObj kvs \<in> set (elements_of data) \<longrightarrow> distinct (map fst kvs)"
  shows "distinct (map fst full_records)
     \<and> (\<forall>k. k \<in> fst ` set full_records \<longleftrightarrow> (\<exists>e \<in> set (elements_of data). primary_key L e = Inr k))
     \<and> (\<forall>k r f. map_of full_records k = Some r
            \<and> (f = ''pivot_value_name'' \<longrightarrow> client = None \<or> resolution_config stream_name = None)
          \<longrightarrow> map_of r f = merged_fields L pivot k (elements_of data) f)
     \<and> (\<forall>k r f e1 e2. map_of full_records k = Some r \<and> f \<noteq> ''pivot_value_name''
            \<and> filter (\<lambda>e. primary_key L e = Inr k) (elements_of data) = [e1, e2]
          \<longrightarrow> map_of r f = (map_of (tagged pivot e1) ++ map_of (tagged pivot e2)) f)"
proof -
  from merge_responses_Inr [OF run] obtain recs urns where
    pages: "merge_pages L pivot (client \<noteq> None \<and> resolution_config stream_name \<noteq> None) data ([], [])
         = Inr (recs, urns)"
    and cases: "(client = None \<or> resolution_config stream_name = None) \<and> full_records = recs \<and> log' = log
        \<or> (\<exists>c endpoint locale us names.
              client = Some c \<and> resolution_config stream_name = Some (endpoint, locale)
              \<and> as_strings urns = Inr us
              \<and> resolve_urns L c us endpoint locale log = Inr (names, log')
              \<and> name_records names recs = Inr full_records)"
    by blast
  note inv = merge_pages_start [OF pages decoded]
  have keys: "map fst full_records = map fst recs"
    and none: "\<And>k. map_of full_records k = None \<longleftrightarrow> map_of recs k = None"
    and some: "\<And>k r f. map_of full_records k = Some r
        \<Longrightarrow> f = ''pivot_value_name'' \<longrightarrow> client = None \<or> resolution_config stream_name = None
        \<Longrightarrow> \<exists>r0. map_of recs k = Some r0 \<and> map_of r f = map_of r0 f"
  proof -
    from cases show "map fst full_records = map fst recs"
      using name_records_lookup by blast
    from cases show "\<And>k. map_of full_records k = None \<longleftrightarrow> map_of recs k = None"
      using name_records_lookup by blast
    fix k r f
    assume r: "map_of full_records k = Some r"
      and f: "f = ''pivot_value_name'' \<longrightarrow> client = None \<or> resolution_config stream_name = None"
    from cases show "\<exists>r0. map_of recs k = Some r0 \<and> map_of r f = map_of r0 f"
    proof
      assume "(client = None \<or> resolution_config stream_name = None) \<and> full_records = recs \<and> log' = log"
      with r show ?thesis by simp
    next
      assume "\<exists>c endpoint locale us names.
              client = Some c \<and> resolution_config stream_name = Some (endpoint, locale)
              \<and> as_strings urns = Inr us
              \<and> resolve_urns L c us endpoint locale log = Inr (names, log')
              \<and> name_records names recs = Inr full_records"
      then obtain c endpoint loc names where c: "client = Some c"
        and cfg: "resolution_config stream_name = Some (endpoint, loc)"
        and nm: "name_records names recs = Inr full_records" by blast
      from f c cfg have f': "f \<noteq> ''pivot_value_name''" by auto
      from name_records_lookup [OF nm] r obtain r0 where r0: "map_of recs k = Some r0"
        and one: "name_record names r0 = Inr r" by blast
      from name_record_Inr [OF one] f' have "map_of r f = map_of r0 f"
        by (auto simp: update_conv')
      with r0 show ?thesis by blast
    qed
  qed
  have d: "distinct (map fst full_records)"
    using inv(1) keys by simp
  have k: "k \<in> fst ` set full_records \<longleftrightarrow> (\<exists>e \<in> set (elements_of data). primary_key L e = Inr k)" for k
  proof -
    have "k \<in> fst ` set full_records \<longleftrightarrow> map_of full_records k \<noteq> None"
      by (rule key_iff)
    also have "\<dots> \<longleftrightarrow> filter (\<lambda>e. primary_key L e = Inr k) (elements_of data) \<noteq> []"
      using none [of k] inv(2) [of k] by simp
    also have "\<dots> \<longleftrightarrow> (\<exists>e \<in> set (elements_of data). primary_key L e = Inr k)"
      by (simp add: filter_empty_conv)
    finally show ?thesis .
  qed
  have m: "map_of r f = merged_fields L pivot k (elements_of data) f"
    if "map_of full_records k = Some r"
      "f = ''pivot_value_name'' \<longrightarrow> client = None \<or> resolution_config stream_name = None"
    for k r f
  proof -
    from some [OF that] obtain r0 where "map_of recs k = Some r0" "map_of r f = map_of r0 f"
      by blast
    with inv(3) [of k r0] show ?thesis by simp
  qed
  have two: "map_of r f = (map_of (tagged pivot e1) ++ map_of (tagged pivot e2)) f"
    if "map_of full_records k = Some r" "f \<noteq> ''pivot_value_name''"
      "filter (\<lambda>e. primary_key L e = Inr k) (elements_of data) = [e1, e2]"
    for k r f e1 e2
    using m [of k r f] that by (simp add: merged_fields_def)
  show ?thesis
    apply (intro conjI allI impI)
       apply (rule d)
      apply (rule k)
     apply (elim conjE, erule (1) m)
    apply (elim conjE, erule (2) two)
    done
qed


lemma merge_element_ok:
  assumes "primary_key L e = Inr k"
  shows "\<exists>acc'. merge_element L pivot collect e acc = Inr acc'"
proof -
  from primary_key_dict [OF assms] obtain kvs pv where e: "e = JObj kvs" and pv: "pivot_value e = Inr pv"
    by blast
  from assms pv obtain ts s where ts: "start_of e = Inr ts" and s: "string_start L ts = Inr s"
    and h: "hashable pv"
    by (cases "start_of e"; cases "string_start L (projr (start_of e))")
       (auto simp: primary_key_def split: if_splits)
  obtain recs urns where acc: "acc = (recs, urns)" by (cases acc)
  show ?thesis
    unfolding acc merge_element_def using e pv ts s h
    by (simp split: option.splits)
qed

lemma merge_page_ok:
  assumes "\<forall>e \<in> set es. \<exists>k. primary_key L e = Inr k"
  shows "\<exists>acc'. merge_page L pivot collect es acc = Inr acc'"
  using assms
proof (induction es arbitrary: acc)
  case Nil
  show ?case by simp
next
  case (Cons e es)
  from Cons.prems obtain k where "primary_key L e = Inr k" by auto
  from merge_element_ok [OF this] obtain acc1 where "merge_element L pivot collect e acc = Inr acc1"
    by blast
  moreover from Cons.IH [of acc1] Cons.prems obtain acc' where "merge_page L pivot collect es acc1 = Inr acc'"
    by auto
  ultimately show ?case by simp
qed

lemma merge_pages_ok:
  assumes "\<forall>page \<in> set data. \<not> isl (py_iter page)"
    and "\<forall>e \<in> set (elements_of data). \<exists>k. primary_key L e = Inr k"
  shows "\<exists>acc'. merge_pages L pivot collect data acc = Inr acc'"
  using assms
proof (induction data arbitrary: acc)
  case Nil
  show ?case by simp
next
  case (Cons page data)
  from Cons.prems(1) obtain es where it: "py_iter page = Inr es"
    by (cases "py_iter page") auto
  have split: "elements_of (page # data) = es @ elements_of data"
    using it by (simp add: elements_of_def)
  from Cons.prems(2) have "\<forall>e \<in> set es. \<exists>k. primary_key L e = Inr k"
    unfolding split by auto
  from merge_page_ok [OF this] obtain acc1 where pg: "merge_page L pivot collect es acc = Inr acc1"
    by blast
  from Cons.prems have "\<forall>page \<in> set data. \<not> isl (py_iter page)"
    "\<forall>e \<in> set (elements_of data). \<exists>k. primary_key L e = Inr k"
    unfolding split by auto
  from Cons.IH [OF this, of acc1] obtain acc' where "merge_pages L pivot collect data acc1 = Inr acc'"
    by blast
  with it pg show ?case by simp
qed

lemma as_strings_ok:
  assumes "\<forall>v \<in> set vs. \<exists>s. v = JStr s"
  shows "\<exists>ss. as_strings vs = Inr ss"
  using assms
proof (induction vs)
  case Nil
  show ?case by simp
next
  case (Cons v vs)
  then obtain s ss where "v = JStr s" "as_strings vs = Inr ss" by auto
  then show ?case by simp
qed

lemma name_records_ok:
  assumes "\<forall>(k, r) \<in> set recs. \<exists>s. map_of r ''pivot_value'' = Some (JStr s)"
  shows "\<exists>named. name_records names recs = Inr named"
  using assms
proof (induction recs)
  case Nil
  show ?case by simp
next
  case (Cons kr recs)
  obtain k r where kr: "kr = (k, r)" by (cases kr)
  from Cons.prems kr obtain s where "map_of r ''pivot_value'' = Some (JStr s)" by auto
  then obtain r' where "name_record names r = Inr r'"
    by (simp add: name_record_def py_item_def)
  moreover from Cons obtain named where "name_records names recs = Inr named" by auto
  ultimately show ?case using kr by simp
qed

lemma config_endpoint:
  assumes "resolution_config stream_name = Some (endpoint, loc)"
  shows "\<exists>r. create_resolver endpoint = Inr r"
proof -
  from assms obtain name where "map_of resolution_configs name = Some (endpoint, loc)"
    by (cases stream_name) (auto simp: resolution_config_def)
  then have "(name, endpoint, loc) \<in> set resolution_configs"
    by (rule map_of_SomeD)
  then show ?thesis
    by (auto simp: resolution_configs_def create_resolver_def)
qed

lemma record_pivot_value:
  assumes pages: "merge_pages L pivot collect data ([], []) = Inr (recs, urns)"
    and decoded: "\<forall>kvs. JObj kvs \<in> set (elements_of data) \<longrightarrow> distinct (map fst kvs)"
    and r: "map_of recs k = Some r"
  shows "\<exists>e \<in> set (elements_of data). primary_key L e = Inr k
           \<and> map_of r ''pivot'' = Some pivot
           \<and> (\<exists>pvs pv. map_of r ''pivotValues'' = Some pvs \<and> py_first pvs = Inr pv
                  \<and> map_of r ''pivot_value'' = Some pv \<and> pivot_value e = Inr pv)"
proof -
  note inv = merge_pages_start [OF pages decoded]
  from inv(2) [of k] r have ne: "filter (\<lambda>e. primary_key L e = Inr k) (elements_of data) \<noteq> []"
    by simp
  from merged_fields_last [OF ne, of pivot] obtain e where e: "e \<in> set (elements_of data)"
    and key: "primary_key L e = Inr k"
    and fields: "\<And>f v. map_of (tagged pivot e) f = Some v
        \<Longrightarrow> merged_fields L pivot k (elements_of data) f = Some v"
    by blast
  from tagged_fields [OF key, of pivot] obtain pvs pv where
    t: "map_of (tagged pivot e) ''pivot'' = Some pivot"
      "map_of (tagged pivot e) ''pivotValues'' = Some pvs" "py_first pvs = Inr pv"
      "map_of (tagged pivot e) ''pivot_value'' = Some pv" "pivot_value e = Inr pv"
    by blast
  have m: "map_of r = merged_fields L pivot k (elements_of data)"
    using inv(3) [OF r] .
  have "map_of r ''pivot'' = Some pivot" "map_of r ''pivotValues'' = Some pvs"
    "map_of r ''pivot_value'' = Some pv"
    unfolding m using t(1,2,4) by (simp_all add: fields)
  with e key t(3,5) show ?thesis by blast
qed

lemma merge_responses_returns:
  assumes decoded: "\<forall>kvs. JObj kvs \<in> set (elements_of data) \<longrightarrow> distinct (map fst kvs)"
    and pages: "\<forall>page \<in> set data. \<not> isl (py_iter page)"
    and keyed: "\<forall>e \<in> set (elements_of data). \<exists>k. primary_key L e = Inr k"
    and strings: "client \<noteq> None \<and> resolution_config stream_name \<noteq> None
        \<longrightarrow> (\<forall>e \<in> set (elements_of data). \<exists>s. pivot_value e = Inr (JStr s))"
  shows "\<exists>full_records log'. merge_responses L pivot data client stream_name log = Inr (full_records, log')"
proof -
  let ?collect = "client \<noteq> None \<and> resolution_config stream_name \<noteq> None"
  from merge_pages_ok [OF pages keyed, of pivot ?collect "([], [])"] obtain recs urns
    where mp: "merge_pages L pivot ?collect data ([], []) = Inr (recs, urns)"
    by (metis surj_pair)
  show ?thesis
  proof (cases ?collect)
    case False
    then show ?thesis
      using mp by (auto simp: merge_responses_def split: option.splits)
  next
    case True
    then obtain c endpoint loc where c: "client = Some c"
      and cfg: "resolution_config stream_name = Some (endpoint, loc)" by auto
    note inv = merge_pages_start [OF mp decoded]
    have "\<forall>v \<in> set urns. \<exists>s. v = JStr s"
      using inv(4) True strings by auto
    from as_strings_ok [OF this] obtain us where us: "as_strings urns = Inr us" by blast
    from config_endpoint [OF cfg] obtain r where "create_resolver endpoint = Inr r" by blast
    then obtain names log1 where res: "resolve_urns L c us endpoint loc log = Inr (names, log1)"
      by (simp add: resolve_urns_def) (metis surj_pair)
    have "\<forall>(k, r) \<in> set recs. \<exists>s. map_of r ''pivot_value'' = Some (JStr s)"
    proof (clarify)
      fix a b r assume "((a, b), r) \<in> set recs"
      with inv(1) have "map_of recs (a, b) = Some r" by simp
      from record_pivot_value [OF mp decoded this] obtain e pv where e: "e \<in> set (elements_of data)"
        and pv: "map_of r ''pivot_value'' = Some pv" "pivot_value e = Inr pv" by blast
      from strings True e obtain s where "pivot_value e = Inr (JStr s)" by blast
      with pv show "\<exists>s. map_of r ''pivot_value'' = Some (JStr s)" by auto
    qed
    from name_records_ok [OF this] obtain named where "name_records names recs = Inr named"
      by blast
    with mp c cfg us res show ?thesis
      by (simp add: merge_responses_def)
  qed
qed

lemma named_record_fields:
  assumes "name_record names r0 = Inr r"
    and "map_of r0 ''pivot'' = Some pivot"
    and "map_of r0 ''pivotValues'' = Some pvs" and "map_of r0 ''pivot_value'' = Some pv"
  shows "map_of r ''pivot'' = Some pivot \<and> map_of r ''pivotValues'' = Some pvs
     \<and> map_of r ''pivot_value'' = Some pv
     \<and> (\<exists>s. pv = JStr s
            \<and> map_of r ''pivot_value_name''
                = Some (case map_of names (extract_code s) of
                          None \<Rightarrow> JStr (extract_code s) | Some name \<Rightarrow> name))"
proof -
  from name_record_Inr [OF assms(1)] obtain s where s: "map_of r0 ''pivot_value'' = Some (JStr s)"
    and r: "r = AList.update ''pivot_value_name''
                  (case map_of names (extract_code s) of
                     None \<Rightarrow> JStr (extract_code s) | Some name \<Rightarrow> name) r0"
    by blast
  from s assms(4) have "pv = JStr s" by simp
  then show ?thesis
    using assms(2,3,4) by (simp add: r update_conv')
qed

lemma campaign_pages_decoded:
  "\<forall>kvs. JObj kvs \<in> set (elements_of campaign_pages) \<longrightarrow> distinct (map fst kvs)"
  by (simp add: elements_of_def campaign_pages_def analytics_element_def)

lemma function_pages_decoded:
  "\<forall>kvs. JObj kvs \<in> set (elements_of function_pages) \<longrightarrow> distinct (map fst kvs)"
  by (simp add: elements_of_def function_pages_def analytics_element_def)

lemma primary_key_analytics_element:
  "primary_key example_lib (analytics_element urn ms) = Inr (JStr urn, ''2024-1-1'')"
  by (simp add: analytics_element_def primary_key_def start_of_def
       pivot_value_def string_start_def py_item_def str_int_def digit_char_def)

lemma pivot_value_analytics_element:
  "pivot_value (analytics_element urn ms) = Inr (JStr urn)"
  by (simp add: analytics_element_def pivot_value_def py_item_def)

subsection \<open>Records with one key are merged\<close>

text \<open>
  C2. Let the elements of the pages be decoded objects, every page iterable, every
  element with a primary key (the first pivot value and the \<open>year-month-day\<close> string of the
  start date), and, when names are resolved, every pivot value a string. Then
  \<open>merge_responses\<close> returns, and in the dict it returns
  \<^item> no two records have the same key, and the keys are those of the elements;
  \<^item> the record of a key has the fields of the elements with that key, merged from first
    to last: a field that one element has is kept, for a field that several have the value
    of the last one stands (\<open>pivot_value_name\<close>, where names are resolved, excepted);
  \<^item> so for two elements \<open>e1\<close>, \<open>e2\<close> with one key the record is \<open>e1\<close> overwritten with \<open>e2\<close>.
\<close>

theorem merge_responses_merges:
  assumes decoded: "\<forall>kvs. JObj kvs \<in> set (elements_of data) \<longrightarrow> distinct (map fst kvs)"
    and pages: "\<forall>page \<in> set data. \<not> isl (py_iter page)"
    and keyed: "\<forall>e \<in> set (elements_of data). \<exists>k. primary_key L e = Inr k"
    and strings: "client \<noteq> None \<and> resolution_config stream_name \<noteq> None
        \<longrightarrow> (\<forall>e \<in> set (elements_of data). \<exists>s. pivot_value e = Inr (JStr s))"
  shows "\<exists>full_records log'.
       merge_responses L pivot data client stream_name log = Inr (full_records, log')
     \<and> distinct (map fst full_records)
     \<and> (\<forall>k. k \<in> fst ` set full_records \<longleftrightarrow> (\<exists>e \<in> set (elements_of data). primary_key L e = Inr k))
     \<and> (\<forall>k r f. map_of full_records k = Some r
            \<and> (f = ''pivot_value_name'' \<longrightarrow> client = None \<or> resolution_config stream_name = None)
          \<longrightarrow> map_of r f = merged_fields L pivot k (elements_of data) f)
     \<and> (\<forall>k r f e1 e2. map_of full_records k = Some r \<and> f \<noteq> ''pivot_value_name''
            \<and> filter (\<lambda>e. primary_key L e = Inr k) (elements_of data) = [e1, e2]
          \<longrightarrow> map_of r f = (map_of (tagged pivot e1) ++ map_of (tagged pivot e2)) f)"
proof -
  from merge_responses_returns [OF decoded pages keyed strings, where pivot = pivot and log = log]
  obtain full_records log' where
    run: "merge_responses L pivot data client stream_name log = Inr (full_records, log')"
    by blast
  from merged_records [OF run decoded] run show ?thesis by blast
qed

theorem merge_responses_merges_witness:
  "\<exists>full_records log'.
     merge_responses example_lib (JStr ''CAMPAIGN'') campaign_pages None
       (Some ''ad_analytics_by_campaign'') [] = Inr (full_records, log')
   \<and> distinct (map fst full_records)
   \<and> (\<exists>r. map_of full_records (JStr ''urn:li:sponsoredCampaign:7'', ''2024-1-1'') = Some r
          \<and> map_of r ''likes'' = Some (JInt 1)
          \<and> map_of r ''impressions'' = Some (JInt 30)
          \<and> map_of r ''clicks'' = Some (JInt 4))"
proof -
  let ?k = "(JStr ''urn:li:sponsoredCampaign:7'', ''2024-1-1'')"
  have pages: "\<forall>page \<in> set campaign_pages. \<not> isl (py_iter page)"
    by (simp add: campaign_pages_def)
  have keyed: "\<forall>e \<in> set (elements_of campaign_pages). \<exists>k. primary_key example_lib e = Inr k"
    by (simp add: elements_of_def campaign_pages_def primary_key_analytics_element)
  have strings: "(None :: client option) \<noteq> None \<and> resolution_config (Some ''ad_analytics_by_campaign'') \<noteq> None
      \<longrightarrow> (\<forall>e \<in> set (elements_of campaign_pages). \<exists>s. pivot_value e = Inr (JStr s))"
    by simp
  from merge_responses_merges [OF campaign_pages_decoded pages keyed strings,
      where pivot = "JStr ''CAMPAIGN''" and log = "[]"]
  obtain full_records log' where
    run: "merge_responses example_lib (JStr ''CAMPAIGN'') campaign_pages None
       (Some ''ad_analytics_by_campaign'') [] = Inr (full_records, log')"
    and d: "distinct (map fst full_records)"
    and keys: "\<forall>k. k \<in> fst ` set full_records
        \<longleftrightarrow> (\<exists>e \<in> set (elements_of campaign_pages). primary_key example_lib e = Inr k)"
    and fields: "\<forall>k r f. map_of full_records k = Some r
            \<and> (f = ''pivot_value_name'' \<longrightarrow> (None :: client option) = None
                 \<or> resolution_config (Some ''ad_analytics_by_campaign'') = None)
          \<longrightarrow> map_of r f
              = merged_fields example_lib (JStr ''CAMPAIGN'') k (elements_of campaign_pages) f"
    by blast
  have "\<exists>e \<in> set (elements_of campaign_pages). primary_key example_lib e = Inr ?k"
    by (simp add: elements_of_def campaign_pages_def primary_key_analytics_element)
  with keys have "?k \<in> fst ` set full_records" by blast
  then obtain r where r: "map_of full_records ?k = Some r"
    by (auto simp: key_iff simp del: map_of_eq_None_iff)
  have m: "merged_fields example_lib (JStr ''CAMPAIGN'') ?k (elements_of campaign_pages) ''likes''
        = Some (JInt 1)"
    "merged_fields example_lib (JStr ''CAMPAIGN'') ?k (elements_of campaign_pages) ''impressions''
        = Some (JInt 30)"
    "merged_fields example_lib (JStr ''CAMPAIGN'') ?k (elements_of campaign_pages) ''clicks''
        = Some (JInt 4)"
    by code_simp+
  from fields r have "map_of r f
      = merged_fields example_lib (JStr ''CAMPAIGN'') ?k (elements_of campaign_pages) f" for f
    by blast
  with m have "map_of r ''likes'' = Some (JInt 1)" "map_of r ''impressions'' = Some (JInt 30)"
    "map_of r ''clicks'' = Some (JInt 4)" by simp_all
  with run d r show ?thesis by blast
qed

subsection \<open>The pivot fields of a record\<close>

text \<open>
  C10. Under the same conditions every record that \<open>merge_responses\<close> returns has the
  field \<open>pivot\<close>, equal to the pivot argument, and the field \<open>pivot_value\<close>, equal to the
  first element of its \<open>pivotValues\<close>. When a client is passed and the stream has a
  resolution configuration, every record has the field \<open>pivot_value_name\<close>: the name the
  resolver returned for the code after the last colon of its pivot value, or that code if
  the resolver returned none for it; the resolver is asked for the pivot values of all
  elements. When no client is passed, or the stream has no configuration, no request is
  made and \<open>pivot_value_name\<close> is what the merged elements had.
\<close>

theorem merge_responses_pivot_fields:
  assumes decoded: "\<forall>kvs. JObj kvs \<in> set (elements_of data) \<longrightarrow> distinct (map fst kvs)"
    and pages: "\<forall>page \<in> set data. \<not> isl (py_iter page)"
    and keyed: "\<forall>e \<in> set (elements_of data). \<exists>k. primary_key L e = Inr k"
    and strings: "client \<noteq> None \<and> resolution_config stream_name \<noteq> None
        \<longrightarrow> (\<forall>e \<in> set (elements_of data). \<exists>s. pivot_value e = Inr (JStr s))"
  shows "\<exists>full_records log'.
       merge_responses L pivot data client stream_name log = Inr (full_records, log')
     \<and> (\<forall>(k, r) \<in> set full_records.
            map_of r ''pivot'' = Some pivot
          \<and> (\<exists>pvs pv. map_of r ''pivotValues'' = Some pvs \<and> py_first pvs = Inr pv
                 \<and> map_of r ''pivot_value'' = Some pv))
     \<and> (\<forall>c endpoint loc. client = Some c \<and> resolution_config stream_name = Some (endpoint, loc)
          \<longrightarrow> (\<exists>urns names.
                 as_strings (map (\<lambda>e. projr (pivot_value e)) (elements_of data)) = Inr urns
               \<and> resolve_urns L c urns endpoint loc log = Inr (names, log')
               \<and> (\<forall>(k, r) \<in> set full_records.
                     \<exists>s. map_of r ''pivot_value'' = Some (JStr s)
                       \<and> map_of r ''pivot_value_name''
                           = Some (case map_of names (extract_code s) of
                                     None \<Rightarrow> JStr (extract_code s) | Some name \<Rightarrow> name))))
     \<and> (client = None \<or> resolution_config stream_name = None
          \<longrightarrow> log' = log
              \<and> (\<forall>(k, r) \<in> set full_records.
                    map_of r ''pivot_value_name''
                      = merged_fields L pivot k (elements_of data) ''pivot_value_name''))"
proof -
  let ?collect = "client \<noteq> None \<and> resolution_config stream_name \<noteq> None"
  from merge_responses_returns [OF decoded pages keyed strings, where pivot = pivot and log = log]
  obtain full_records log' where
    run: "merge_responses L pivot data client stream_name log = Inr (full_records, log')"
    by blast
  from merge_responses_Inr [OF run] obtain recs urns where
    mp: "merge_pages L pivot ?collect data ([], []) = Inr (recs, urns)"
    and cases: "(client = None \<or> resolution_config stream_name = None) \<and> full_records = recs \<and> log' = log
        \<or> (\<exists>c endpoint locale us names.
              client = Some c \<and> resolution_config stream_name = Some (endpoint, locale)
              \<and> as_strings urns = Inr us
              \<and> resolve_urns L c us endpoint locale log = Inr (names, log')
              \<and> name_records names recs = Inr full_records)"
    by blast
  note inv = merge_pages_start [OF mp decoded]
  note merged = merged_records [OF run decoded]
  from merged have dfull: "distinct (map fst full_records)" by (rule conjunct1)
  have base: "map_of r0 ''pivot'' = Some pivot
          \<and> (\<exists>pvs pv. map_of r0 ''pivotValues'' = Some pvs \<and> py_first pvs = Inr pv
                 \<and> map_of r0 ''pivot_value'' = Some pv)"
    if "map_of recs k = Some r0" for k r0
    using record_pivot_value [OF mp decoded that] by blast
  have fields: "map_of r ''pivot'' = Some pivot
          \<and> (\<exists>pvs pv. map_of r ''pivotValues'' = Some pvs \<and> py_first pvs = Inr pv
                 \<and> map_of r ''pivot_value'' = Some pv)"
    if mem: "(k, r) \<in> set full_records" for k r
  proof -
    from mem dfull have look: "map_of full_records k = Some r" by simp
    from cases show ?thesis
    proof
      assume "(client = None \<or> resolution_config stream_name = None) \<and> full_records = recs \<and> log' = log"
      with look base show ?thesis by simp
    next
      assume "\<exists>c endpoint locale us names.
              client = Some c \<and> resolution_config stream_name = Some (endpoint, locale)
              \<and> as_strings urns = Inr us
              \<and> resolve_urns L c us endpoint locale log = Inr (names, log')
              \<and> name_records names recs = Inr full_records"
      then obtain names where nm: "name_records names recs = Inr full_records" by blast
      from name_records_lookup [OF nm] look obtain r0 where r0: "map_of recs k = Some r0"
        and one: "name_record names r0 = Inr r" by blast
      from base [OF r0] obtain pvs pv where b: "map_of r0 ''pivot'' = Some pivot"
        "map_of r0 ''pivotValues'' = Some pvs" "py_first pvs = Inr pv"
        "map_of r0 ''pivot_value'' = Some pv" by blast
      from named_record_fields [OF one b(1,2,4)] b(3) show ?thesis by blast
    qed
  qed
  have named: "\<exists>urns names.
                 as_strings (map (\<lambda>e. projr (pivot_value e)) (elements_of data)) = Inr urns
               \<and> resolve_urns L c urns endpoint loc log = Inr (names, log')
               \<and> (\<forall>(k, r) \<in> set full_records.
                     \<exists>s. map_of r ''pivot_value'' = Some (JStr s)
                       \<and> map_of r ''pivot_value_name''
                           = Some (case map_of names (extract_code s) of
                                     None \<Rightarrow> JStr (extract_code s) | Some name \<Rightarrow> name))"
    if c: "client = Some c" and cfg: "resolution_config stream_name = Some (endpoint, loc)"
    for c endpoint loc
  proof -
    from cases c cfg obtain us names where us: "as_strings urns = Inr us"
      and res: "resolve_urns L c us endpoint loc log = Inr (names, log')"
      and nm: "name_records names recs = Inr full_records"
      by auto
    have urns: "urns = map (\<lambda>e. projr (pivot_value e)) (elements_of data)"
      using inv(4) c cfg by simp
    have each: "\<exists>s. map_of r ''pivot_value'' = Some (JStr s)
                       \<and> map_of r ''pivot_value_name''
                           = Some (case map_of names (extract_code s) of
                                     None \<Rightarrow> JStr (extract_code s) | Some name \<Rightarrow> name)"
      if mem: "(k, r) \<in> set full_records" for k r
    proof -
      from mem dfull have look: "map_of full_records k = Some r" by simp
      from name_records_lookup [OF nm] look obtain r0 where r0: "map_of recs k = Some r0"
        and one: "name_record names r0 = Inr r" by blast
      from base [OF r0] obtain pvs pv where b: "map_of r0 ''pivot'' = Some pivot"
        "map_of r0 ''pivotValues'' = Some pvs" "py_first pvs = Inr pv"
        "map_of r0 ''pivot_value'' = Some pv" by blast
      from named_record_fields [OF one b(1,2,4)] show ?thesis by blast
    qed
    from us res each show ?thesis unfolding urns by blast
  qed
  have plain: "log' = log
              \<and> (\<forall>(k, r) \<in> set full_records.
                    map_of r ''pivot_value_name''
                      = merged_fields L pivot k (elements_of data) ''pivot_value_name'')"
    if off: "client = None \<or> resolution_config stream_name = None"
  proof -
    from cases off have "log' = log" by auto
    moreover have "map_of r ''pivot_value_name''
                      = merged_fields L pivot k (elements_of data) ''pivot_value_name''"
      if mem: "(k, r) \<in> set full_records" for k r
    proof -
      from mem dfull have look: "map_of full_records k = Some r" by simp
      from merged [THEN conjunct2, THEN conjunct2, THEN conjunct1, rule_format,
          of k r "''pivot_value_name''"] look off
      show ?thesis by blast
    qed
    ultimately show ?thesis by blast
  qed
  show ?thesis
    apply (rule exI [of _ full_records])
    apply (rule exI [of _ log'])
    apply (intro conjI)
       apply (rule run)
      apply (clarify, erule fields)
     apply (intro allI impI, elim conjE, erule (1) named)
    apply (rule impI, erule plain)
    done
qed

theorem merge_responses_pivot_fields_witness:
  "\<exists>full_records log'.
     merge_responses example_lib (JStr ''MEMBER_JOB_FUNCTION'') function_pages
       (Some functions_client) (Some ''ad_analytics_by_member_job_function'') []
       = Inr (full_records, log')
   \<and> full_records \<noteq> []
   \<and> list_all (\<lambda>(k, r). map_of r ''pivot'' = Some (JStr ''MEMBER_JOB_FUNCTION'')
          \<and> (\<exists>s. map_of r ''pivot_value'' = Some (JStr s)
                \<and> map_of r ''pivot_value_name''
                    = Some (if extract_code s = ''1'' then JStr ''Accounting''
                            else JStr (extract_code s)))) full_records"
proof -
  let ?cfg = "Some ''ad_analytics_by_member_job_function''"
  have cfg: "resolution_config ?cfg = Some (''functions'', Some ''en_US'')"
    by (simp add: resolution_config_def resolution_configs_def)
  have pages: "\<forall>page \<in> set function_pages. \<not> isl (py_iter page)"
    by (simp add: function_pages_def)
  have keyed: "\<forall>e \<in> set (elements_of function_pages). \<exists>k. primary_key example_lib e = Inr k"
    by (simp add: elements_of_def function_pages_def primary_key_analytics_element)
  have strings: "Some functions_client \<noteq> None \<and> resolution_config ?cfg \<noteq> None
      \<longrightarrow> (\<forall>e \<in> set (elements_of function_pages). \<exists>s. pivot_value e = Inr (JStr s))"
    by (simp add: elements_of_def function_pages_def pivot_value_analytics_element)
  have urns: "as_strings (map (\<lambda>e. projr (pivot_value e)) (elements_of function_pages))
      = Inr [''urn:li:function:1'', ''urn:li:function:2'']"
    by (simp add: elements_of_def function_pages_def pivot_value_analytics_element)
  have names: "resolve_urns example_lib functions_client [''urn:li:function:1'', ''urn:li:function:2'']
       ''functions'' (Some ''en_US'') []
     = Inr ([(''1'', JStr ''Accounting'')],
            [(''https://api.linkedin.com/v2/functions?locale=en_US'', ''functions'')])"
    by code_simp
  from merge_responses_pivot_fields [OF function_pages_decoded pages keyed strings,
      where pivot = "JStr ''MEMBER_JOB_FUNCTION''" and log = "[]"]
  obtain full_records log' where
    run: "merge_responses example_lib (JStr ''MEMBER_JOB_FUNCTION'') function_pages
       (Some functions_client) ?cfg [] = Inr (full_records, log')"
    and fields: "\<forall>(k, r) \<in> set full_records.
            map_of r ''pivot'' = Some (JStr ''MEMBER_JOB_FUNCTION'')
          \<and> (\<exists>pvs pv. map_of r ''pivotValues'' = Some pvs \<and> py_first pvs = Inr pv
                 \<and> map_of r ''pivot_value'' = Some pv)"
    and named: "\<forall>c endpoint loc. Some functions_client = Some c \<and> resolution_config ?cfg = Some (endpoint, loc)
          \<longrightarrow> (\<exists>urns names.
                 as_strings (map (\<lambda>e. projr (pivot_value e)) (elements_of function_pages)) = Inr urns
               \<and> resolve_urns example_lib c urns endpoint loc [] = Inr (names, log')
               \<and> (\<forall>(k, r) \<in> set full_records.
                     \<exists>s. map_of r ''pivot_value'' = Some (JStr s)
                       \<and> map_of r ''pivot_value_name''
                           = Some (case map_of names (extract_code s) of
                                     None \<Rightarrow> JStr (extract_code s) | Some name \<Rightarrow> name)))"
    by blast
  from named cfg obtain us names where us: "as_strings (map (\<lambda>e. projr (pivot_value e)) (elements_of function_pages)) = Inr us"
    and res: "resolve_urns example_lib functions_client us ''functions'' (Some ''en_US'') [] = Inr (names, log')"
    and each: "\<forall>(k, r) \<in> set full_records.
                     \<exists>s. map_of r ''pivot_value'' = Some (JStr s)
                       \<and> map_of r ''pivot_value_name''
                           = Some (case map_of names (extract_code s) of
                                     None \<Rightarrow> JStr (extract_code s) | Some name \<Rightarrow> name)"
    by blast
  from us urns have "us = [''urn:li:function:1'', ''urn:li:function:2'']" by simp
  with res names have n: "names = [(''1'', JStr ''Accounting'')]" by simp
  have "list_all (\<lambda>(k, r). map_of r ''pivot'' = Some (JStr ''MEMBER_JOB_FUNCTION'')
          \<and> (\<exists>s. map_of r ''pivot_value'' = Some (JStr s)
                \<and> map_of r ''pivot_value_name''
                    = Some (if extract_code s = ''1'' then JStr ''Accounting''
                            else JStr (extract_code s)))) full_records"
    unfolding list_all_iff using fields each unfolding n by fastforce
  moreover have "merge_responses example_lib (JStr ''MEMBER_JOB_FUNCTION'') function_pages
       (Some functions_client) ?cfg [] \<noteq> Inr ([], log')"
    by code_simp
  with run have "full_records \<noteq> []" by auto
  ultimately show ?thesis using run by blast
qed

text \<open>
  The job function stream has a resolution configuration; called without a client,
  \<open>merge_responses\<close> returns records that have no \<open>pivot_value_name\<close>.
\<close>

theorem merge_responses_without_client:
  "resolution_config (Some ''ad_analytics_by_member_job_function'') = Some (''functions'', Some ''en_US'')
   \<and> merge_responses example_lib (JStr ''MEMBER_JOB_FUNCTION'') function_pages None
       (Some ''ad_analytics_by_member_job_function'') []
     = Inr ([((JStr ''urn:li:function:1'', ''2024-1-1''),
              [(''dateRange'', JObj [(''start'', JObj [(''year'', JInt 2024), (''month'', JInt 1), (''day'', JInt 1)]),
                                     (''end'', JObj [(''year'', JInt 2024), (''month'', JInt 1), (''day'', JInt 2)])]),
               (''pivotValues'', JList [JStr ''urn:li:function:1'']), (''clicks'', JInt 3),
               (''pivot'', JStr ''MEMBER_JOB_FUNCTION''), (''pivot_value'', JStr ''urn:li:function:1'')]),
             ((JStr ''urn:li:function:2'', ''2024-1-1''),
              [(''dateRange'', JObj [(''start'', JObj [(''year'', JInt 2024), (''month'', JInt 1), (''day'', JInt 1)]),
                                     (''end'', JObj [(''year'', JInt 2024), (''month'', JInt 1), (''day'', JInt 2)])]),
               (''pivotValues'', JList [JStr ''urn:li:function:2'']), (''clicks'', JInt 5),
               (''pivot'', JStr ''MEMBER_JOB_FUNCTION''), (''pivot_value'', JStr ''urn:li:function:2'')])],
            [])"
  by code_simp

section \<open>The permission error of the video ads stream\<close>


lemma get_bookmark_stored:
  assumes "map_of st ''bookmarks'' = Some (JObj bookmarks)"
  shows "get_bookmark name (JObj st) dflt
     = Inr (case map_of bookmarks name of None \<Rightarrow> dflt | Some b \<Rightarrow> b)"
proof -
  from assms have "''bookmarks'' \<in> fst ` set st"
    by (simp add: key_iff del: map_of_eq_None_iff)
  with assms show ?thesis by (simp add: get_bookmark_def)
qed

lemma get_bookmark_none:
  assumes "map_of st ''bookmarks'' = None"
  shows "get_bookmark name (JObj st) dflt = Inr dflt"
proof -
  from assms have "''bookmarks'' \<notin> fst ` set st"
    by (simp add: key_iff del: map_of_eq_None_iff)
  then show ?thesis by (simp add: get_bookmark_def)
qed

text \<open>
  C9. \<open>VideoAds.sync_endpoint\<close>, called with its arguments by keyword as the tap calls it:
  \<^item> if the inherited sync raises an error whose text contains the permission-denied
    message, it returns the count 0 and the bookmark stored for \<open>video_ads\<close> in the state;
  \<^item> if the state has no bookmark for the stream, it returns 0 and the start date;
  \<^item> any other error is raised again as it is;
  \<^item> what the inherited sync returns is returned.
\<close>

theorem video_ads_permission_denied:
  "(super_sync_endpoint = Inl error \<and> contains_str (str_of_error error) PERMISSION_DENIED
      \<and> map_of kwargs ''state'' = Some (JObj st)
      \<and> map_of st ''bookmarks'' = Some (JObj bookmarks)
      \<and> map_of bookmarks ''video_ads'' = Some stored
    \<longrightarrow> VideoAds_sync_endpoint super_sync_endpoint kwargs = Inr (0, stored))
   \<and> (super_sync_endpoint = Inl error \<and> contains_str (str_of_error error) PERMISSION_DENIED
      \<and> map_of kwargs ''state'' = Some (JObj st)
      \<and> (map_of st ''bookmarks'' = None
          \<or> map_of st ''bookmarks'' = Some (JObj bookmarks) \<and> map_of bookmarks ''video_ads'' = None)
    \<longrightarrow> VideoAds_sync_endpoint super_sync_endpoint kwargs = Inr (0, kwargs_get kwargs ''start_date''))
   \<and> (super_sync_endpoint = Inl error \<and> \<not> contains_str (str_of_error error) PERMISSION_DENIED
    \<longrightarrow> VideoAds_sync_endpoint super_sync_endpoint kwargs = Inl error)
   \<and> (super_sync_endpoint = Inr result
    \<longrightarrow> VideoAds_sync_endpoint super_sync_endpoint kwargs = Inr result)"
  by (auto simp: VideoAds_sync_endpoint_def kwargs_get_def get_bookmark_stored get_bookmark_none)

theorem video_ads_permission_denied_witness:
  "VideoAds_sync_endpoint (Inl denied) video_kwargs = Inr (0, JStr ''2024-02-01T00:00:00Z'')
   \<and> VideoAds_sync_endpoint (Inl (Raise ClientError ''HTTP-error-code: 500, Error: Internal server error''))
         video_kwargs
       = Inl (Raise ClientError ''HTTP-error-code: 500, Error: Internal server error'')
   \<and> VideoAds_sync_endpoint (Inr (12, JStr ''2024-02-09T00:00:00Z'')) video_kwargs
       = Inr (12, JStr ''2024-02-09T00:00:00Z'')"
proof -
  have hit: "contains_str (str_of_error denied) PERMISSION_DENIED"
    by (simp add: denied_def PERMISSION_DENIED_def)
  have miss: "\<not> contains_str (str_of_error (Raise ClientError ''HTTP-error-code: 500, Error: Internal server error''))
      PERMISSION_DENIED"
    by (simp add: PERMISSION_DENIED_def)
  have st: "map_of video_kwargs ''state''
      = Some (JObj [(''bookmarks'', JObj [(''accounts'', JStr ''2024-03-01T00:00:00Z''),
                                            (''video_ads'', JStr ''2024-02-01T00:00:00Z'')])])"
    by (simp add: video_kwargs_def)
  have a: "VideoAds_sync_endpoint (Inl denied) video_kwargs = Inr (0, JStr ''2024-02-01T00:00:00Z'')"
    using hit st video_ads_permission_denied [where super_sync_endpoint = "Inl denied" and error = denied
        and kwargs = video_kwargs
        and st = "[(''bookmarks'', JObj [(''accounts'', JStr ''2024-03-01T00:00:00Z''),
                                            (''video_ads'', JStr ''2024-02-01T00:00:00Z'')])]"
        and bookmarks = "[(''accounts'', JStr ''2024-03-01T00:00:00Z''),
                                            (''video_ads'', JStr ''2024-02-01T00:00:00Z'')]"
        and stored = "JStr ''2024-02-01T00:00:00Z''", THEN conjunct1]
    by simp
  have b: "VideoAds_sync_endpoint (Inl (Raise ClientError ''HTTP-error-code: 500, Error: Internal server error''))
         video_kwargs
       = Inl (Raise ClientError ''HTTP-error-code: 500, Error: Internal server error'')"
    using miss video_ads_permission_denied [where
        super_sync_endpoint = "Inl (Raise ClientError ''HTTP-error-code: 500, Error: Internal server error'')"
        and error = "Raise ClientError ''HTTP-error-code: 500, Error: Internal server error''"
        and kwargs = video_kwargs, THEN conjunct2, THEN conjunct2, THEN conjunct1]
    by simp
  have c: "VideoAds_sync_endpoint (Inr (12, JStr ''2024-02-09T00:00:00Z'')) video_kwargs
       = Inr (12, JStr ''2024-02-09T00:00:00Z'')"
    using video_ads_permission_denied [where
        super_sync_endpoint = "Inr (12, JStr ''2024-02-09T00:00:00Z'')"
        and result = "(12, JStr ''2024-02-09T00:00:00Z'')"
        and kwargs = video_kwargs, THEN conjunct2, THEN conjunct2, THEN conjunct2]
    by simp
  from a b c show ?thesis by simp
qed

section \<open>Which records are written\<close>


lemma has_bookmark_dict:
  "has_bookmark bookmark_field (JObj kvs) = Inr (bookmark_of bookmark_field (JObj kvs) \<noteq> None)"
  by (cases bookmark_field)
     (auto simp: has_bookmark_def bookmark_of_def key_iff simp del: map_of_eq_None_iff)

lemma bookmark_of_Some:
  assumes "bookmark_of bookmark_field (JObj kvs) = Some v"
  shows "py_item kvs (the bookmark_field) = Inr v"
  using assms
  by (cases bookmark_field) (auto simp: bookmark_of_def py_item_def split: if_splits)

lemma track_max_ok:
  assumes v: "bookmark_of bookmark_field (JObj kvs) = Some v"
    and tv: "\<not> isl (strptime_to_utc S v)"
    and inv: "max_bookmark_value st = JNull \<or> \<not> isl (strptime_to_utc S (max_bookmark_value st))"
  shows "\<exists>st1. track_max S (the bookmark_field) (JObj kvs) st = Inr st1
           \<and> written st1 = written st \<and> counter st1 = counter st
           \<and> (max_bookmark_value st1 = JNull \<or> \<not> isl (strptime_to_utc S (max_bookmark_value st1)))"
proof (cases "max_bookmark_value st = JNull")
  case True
  then show ?thesis
    using tv by (simp add: track_max_def bookmark_of_Some [OF v])
next
  case False
  with inv obtain b where b: "strptime_to_utc S (max_bookmark_value st) = Inr b"
    by (cases "strptime_to_utc S (max_bookmark_value st)") auto
  from tv obtain a where a: "strptime_to_utc S v = Inr a"
    by (cases "strptime_to_utc S v") auto
  show ?thesis
    using False a b inv tv by (simp add: track_max_def bookmark_of_Some [OF v])
qed

lemma emit_ok:
  assumes "write_error S tr = None"
  shows "emit S tr st = (st\<lparr>written := written st @ [tr], counter := counter st + 1\<rparr>, None)"
  using assms by (simp add: emit_def)

lemma process_record_ok:
  assumes tr: "transformed S parent_id parent record = Inr (JObj kvs)"
    and wr: "write_error S (JObj kvs) = None"
    and times: "\<forall>v. bookmark_of bookmark_field (JObj kvs) = Some v \<longrightarrow> \<not> isl (strptime_to_utc S v)"
    and last: "replication_method \<noteq> ''FULL_TABLE'' \<longrightarrow> \<not> isl (strptime_to_utc S last_datetime)"
    and inv: "max_bookmark_value st = JNull \<or> \<not> isl (strptime_to_utc S (max_bookmark_value st))"
  shows "\<exists>st1. process_record S replication_method bookmark_field last_datetime parent_id parent record st
             = (st1, None)
           \<and> written st1 = written st
                @ (if kept S replication_method bookmark_field last_datetime (JObj kvs) then [JObj kvs] else [])
           \<and> counter st1 = counter st
                + (if kept S replication_method bookmark_field last_datetime (JObj kvs) then 1 else 0)
           \<and> (max_bookmark_value st1 = JNull \<or> \<not> isl (strptime_to_utc S (max_bookmark_value st1)))"
proof (cases "bookmark_of bookmark_field (JObj kvs)")
  case None
  then have k: "kept S replication_method bookmark_field last_datetime (JObj kvs)"
    by (simp add: kept_def)
  show ?thesis
    using None k inv
    by (simp add: process_record_def tr has_bookmark_dict emit_ok [OF wr])
next
  case (Some v)
  with times have tv: "\<not> isl (strptime_to_utc S v)" by simp
  then obtain a where a: "strptime_to_utc S v = Inr a"
    by (cases "strptime_to_utc S v") auto
  show ?thesis
  proof (cases "replication_method = ''FULL_TABLE''")
    case True
    let ?st1 = "st\<lparr>written := written st @ [JObj kvs], counter := counter st + 1\<rparr>"
    have inv1: "max_bookmark_value ?st1 = JNull \<or> \<not> isl (strptime_to_utc S (max_bookmark_value ?st1))"
      using inv by simp
    from track_max_ok [OF Some tv inv1] obtain st2
      where t: "track_max S (the bookmark_field) (JObj kvs) ?st1 = Inr st2"
        and w: "written st2 = written ?st1" "counter st2 = counter ?st1"
        and i: "max_bookmark_value st2 = JNull \<or> \<not> isl (strptime_to_utc S (max_bookmark_value st2))"
      by blast
    have k: "kept S replication_method bookmark_field last_datetime (JObj kvs)"
      using True by (simp add: kept_def)
    show ?thesis
      using True Some t w i k
      by (simp add: process_record_def tr has_bookmark_dict emit_ok [OF wr])
  next
    case False
    with last obtain l where l: "strptime_to_utc S last_datetime = Inr l"
      by (cases "strptime_to_utc S last_datetime") auto
    from track_max_ok [OF Some tv inv] obtain st1
      where t: "track_max S (the bookmark_field) (JObj kvs) st = Inr st1"
        and w: "written st1 = written st" "counter st1 = counter st"
        and i: "max_bookmark_value st1 = JNull \<or> \<not> isl (strptime_to_utc S (max_bookmark_value st1))"
      by blast
    have k: "kept S replication_method bookmark_field last_datetime (JObj kvs) \<longleftrightarrow> l \<le> a"
      using False Some a l by (simp add: kept_def)
    show ?thesis
      using False Some t w i k a l
      by (simp add: process_record_def tr has_bookmark_dict emit_ok [OF wr] bookmark_of_Some [OF Some])
  qed
qed


lemma process_loop_ok:
  assumes recs: "\<forall>record \<in> set records. \<exists>kvs.
        transformed S parent_id parent record = Inr (JObj kvs)
      \<and> write_error S (JObj kvs) = None
      \<and> (\<forall>v. bookmark_of bookmark_field (JObj kvs) = Some v \<longrightarrow> \<not> isl (strptime_to_utc S v))"
    and last: "replication_method \<noteq> ''FULL_TABLE'' \<longrightarrow> \<not> isl (strptime_to_utc S last_datetime)"
    and inv: "max_bookmark_value st = JNull \<or> \<not> isl (strptime_to_utc S (max_bookmark_value st))"
  shows "\<exists>st1. process_loop S replication_method bookmark_field last_datetime parent_id parent records st
             = (st1, None)
           \<and> written st1 = written st
                @ filter (kept S replication_method bookmark_field last_datetime)
                    (map (\<lambda>record. projr (transformed S parent_id parent record)) records)
           \<and> counter st1 = counter st
                + int (length (filter (kept S replication_method bookmark_field last_datetime)
                    (map (\<lambda>record. projr (transformed S parent_id parent record)) records)))"
  using recs inv
proof (induction records arbitrary: st)
  case Nil
  show ?case by simp
next
  case (Cons x xs)
  from Cons.prems(1) obtain kvs where tr: "transformed S parent_id parent x = Inr (JObj kvs)"
    and wr: "write_error S (JObj kvs) = None"
    and times: "\<forall>v. bookmark_of bookmark_field (JObj kvs) = Some v \<longrightarrow> \<not> isl (strptime_to_utc S v)"
    by auto
  from process_record_ok [OF tr wr times last Cons.prems(2)] obtain st1 where
    one: "process_record S replication_method bookmark_field last_datetime parent_id parent x st
             = (st1, None)"
    and w: "written st1 = written st
                @ (if kept S replication_method bookmark_field last_datetime (JObj kvs) then [JObj kvs] else [])"
    and c: "counter st1 = counter st
                + (if kept S replication_method bookmark_field last_datetime (JObj kvs) then 1 else 0)"
    and i: "max_bookmark_value st1 = JNull \<or> \<not> isl (strptime_to_utc S (max_bookmark_value st1))"
    by blast
  from Cons.prems(1) have rest: "\<forall>record \<in> set xs. \<exists>kvs.
        transformed S parent_id parent record = Inr (JObj kvs)
      \<and> write_error S (JObj kvs) = None
      \<and> (\<forall>v. bookmark_of bookmark_field (JObj kvs) = Some v \<longrightarrow> \<not> isl (strptime_to_utc S v))"
    by simp
  from Cons.IH [OF rest i] obtain st2 where
    loop: "process_loop S replication_method bookmark_field last_datetime parent_id parent xs st1
             = (st2, None)"
    and w2: "written st2 = written st1
                @ filter (kept S replication_method bookmark_field last_datetime)
                    (map (\<lambda>record. projr (transformed S parent_id parent record)) xs)"
    and c2: "counter st2 = counter st1
                + int (length (filter (kept S replication_method bookmark_field last_datetime)
                    (map (\<lambda>record. projr (transformed S parent_id parent record)) xs)))"
    by blast
  show ?case
    using one loop w c w2 c2 tr by simp
qed

lemma example_transformed:
  "transformed example_singer JNull None r = Inr r"
  by (simp add: transformed_def add_parent_id_def example_singer_def)

text \<open>
  C1. Let the schema of the stream be readable, every record of the batch be transformed
  to a dict, every write succeed and the date strings involved be parsable (the bookmark
  values of the records and the maximum passed in; the last bookmark value too, unless the
  stream is \<open>FULL_TABLE\<close>). Then \<open>process_records\<close> returns, the count being the number of
  records written, and the records written are the transformed records that are kept, in
  order:
  \<^item> for a \<open>FULL_TABLE\<close> stream, all of them;
  \<^item> for another stream, every record that has no bookmark field (or when no bookmark
    field is given), and a record that has one if and only if its value is at or after
    the last bookmark value.
\<close>

theorem process_records_emits:
  assumes schema: "stream_schema S = None"
    and dicts: "\<forall>record \<in> set records. \<exists>kvs. transformed S parent_id parent record = Inr (JObj kvs)"
    and writes: "\<forall>tr \<in> set trs. write_error S tr = None"
    and times: "\<forall>tr \<in> set trs. \<forall>v. bookmark_of bookmark_field tr = Some v \<longrightarrow> \<not> isl (strptime_to_utc S v)"
    and last: "replication_method \<noteq> ''FULL_TABLE'' \<longrightarrow> \<not> isl (strptime_to_utc S last_datetime)"
    and start: "max_bookmark = JNull \<or> \<not> isl (strptime_to_utc S max_bookmark)"
    and trs: "trs = map (\<lambda>record. projr (transformed S parent_id parent record)) records"
    and emitted: "emitted = filter (kept S replication_method bookmark_field last_datetime) trs"
  shows "(\<exists>bookmark. process_records S replication_method bookmark_field max_bookmark last_datetime
              parent_id parent records
            = (emitted, Inr (bookmark, int (length emitted))))
     \<and> (replication_method = ''FULL_TABLE'' \<longrightarrow> emitted = trs)
     \<and> (\<forall>tr \<in> set trs. replication_method \<noteq> ''FULL_TABLE'' \<and> bookmark_of bookmark_field tr = None
          \<longrightarrow> tr \<in> set emitted)
     \<and> (\<forall>tr \<in> set trs. \<forall>v. replication_method \<noteq> ''FULL_TABLE'' \<and> bookmark_of bookmark_field tr = Some v
          \<longrightarrow> (tr \<in> set emitted
               \<longleftrightarrow> projr (strptime_to_utc S v) \<ge> projr (strptime_to_utc S last_datetime)))"
proof -
  let ?st0 = "\<lparr>written = [], max_bookmark_value = max_bookmark, counter = 0\<rparr>"
  have recs: "\<forall>record \<in> set records. \<exists>kvs.
        transformed S parent_id parent record = Inr (JObj kvs)
      \<and> write_error S (JObj kvs) = None
      \<and> (\<forall>v. bookmark_of bookmark_field (JObj kvs) = Some v \<longrightarrow> \<not> isl (strptime_to_utc S v))"
  proof
    fix x assume r: "x \<in> set records"
    with dicts obtain kvs where tr: "transformed S parent_id parent x = Inr (JObj kvs)" by blast
    with r have "JObj kvs \<in> set trs" unfolding trs by force
    with writes times tr show "\<exists>kvs.
        transformed S parent_id parent x = Inr (JObj kvs)
      \<and> write_error S (JObj kvs) = None
      \<and> (\<forall>v. bookmark_of bookmark_field (JObj kvs) = Some v \<longrightarrow> \<not> isl (strptime_to_utc S v))"
      by blast
  qed
  have inv: "max_bookmark_value ?st0 = JNull \<or> \<not> isl (strptime_to_utc S (max_bookmark_value ?st0))"
    using start by simp
  from process_loop_ok [OF recs last inv] obtain st1 where
    loop: "process_loop S replication_method bookmark_field last_datetime parent_id parent records ?st0
             = (st1, None)"
    and w: "written st1 = emitted" and c: "counter st1 = int (length emitted)"
    unfolding trs emitted by auto
  have run: "\<exists>bookmark. process_records S replication_method bookmark_field max_bookmark last_datetime
              parent_id parent records
            = (emitted, Inr (bookmark, int (length emitted)))"
    using schema loop w c by (simp add: process_records_def)
  have full: "replication_method = ''FULL_TABLE'' \<longrightarrow> emitted = trs"
    unfolding emitted by (simp add: kept_def)
  have absent: "\<forall>tr \<in> set trs. replication_method \<noteq> ''FULL_TABLE'' \<and> bookmark_of bookmark_field tr = None
          \<longrightarrow> tr \<in> set emitted"
    unfolding emitted by (simp add: kept_def)
  have present: "\<forall>tr \<in> set trs. \<forall>v. replication_method \<noteq> ''FULL_TABLE'' \<and> bookmark_of bookmark_field tr = Some v
          \<longrightarrow> (tr \<in> set emitted
               \<longleftrightarrow> projr (strptime_to_utc S v) \<ge> projr (strptime_to_utc S last_datetime))"
    unfolding emitted by (simp add: kept_def)
  from run full absent present show ?thesis by (intro conjI)
qed

theorem process_records_emits_witness:
  "fst (process_records example_singer ''INCREMENTAL'' (Some ''last_modified_time'')
          (JStr ''2024-01-15T00:00:00Z'') (JStr ''2024-01-15T00:00:00Z'') JNull None account_records)
     = [account_record 2 [(''last_modified_time'', JStr ''2024-01-15T00:00:00Z'')],
        account_record 3 [(''last_modified_time'', JStr ''2024-02-01T00:00:00Z'')],
        account_record 4 []]
   \<and> fst (process_records example_singer ''FULL_TABLE'' (Some ''last_modified_time'')
          (JStr ''2024-01-15T00:00:00Z'') (JStr ''2024-01-15T00:00:00Z'') JNull None account_records)
     = account_records"
proof -
  let ?last = "JStr ''2024-01-15T00:00:00Z''"
  let ?bf = "Some ''last_modified_time''"
  have schema: "stream_schema example_singer = None"
    by (simp add: example_singer_def)
  have dicts: "\<forall>r \<in> set account_records. \<exists>kvs. transformed example_singer JNull None r = Inr (JObj kvs)"
    by (simp add: example_transformed account_records_def account_record_def)
  have trs: "account_records = map (\<lambda>r. projr (transformed example_singer JNull None r)) account_records"
    by (simp add: example_transformed)
  have writes: "\<forall>tr \<in> set account_records. write_error example_singer tr = None"
    by (simp add: example_singer_def)
  have times: "\<forall>tr \<in> set account_records. \<forall>v. bookmark_of ?bf tr = Some v
      \<longrightarrow> \<not> isl (strptime_to_utc example_singer v)"
    by (simp add: account_records_def account_record_def bookmark_of_def example_singer_def
          example_instants_def)
  have last: "m \<noteq> ''FULL_TABLE'' \<longrightarrow> \<not> isl (strptime_to_utc example_singer ?last)" for m
    by (simp add: example_singer_def example_instants_def)
  have start: "?last = JNull \<or> \<not> isl (strptime_to_utc example_singer ?last)"
    by (simp add: example_singer_def example_instants_def)
  have inc: "filter (kept example_singer ''INCREMENTAL'' ?bf ?last) account_records
      = [account_record 2 [(''last_modified_time'', JStr ''2024-01-15T00:00:00Z'')],
         account_record 3 [(''last_modified_time'', JStr ''2024-02-01T00:00:00Z'')],
         account_record 4 []]"
    by (simp add: account_records_def account_record_def kept_def bookmark_of_def example_singer_def
          example_instants_def)
  from process_records_emits [OF schema dicts writes times last start trs refl,
      where replication_method = "''INCREMENTAL''", THEN conjunct1]
  have a: "fst (process_records example_singer ''INCREMENTAL'' ?bf ?last ?last JNull None account_records)
      = filter (kept example_singer ''INCREMENTAL'' ?bf ?last) account_records"
    by auto
  note full = process_records_emits [OF schema dicts writes times last start trs refl,
      where replication_method = "''FULL_TABLE''"]
  from full [THEN conjunct1] full [THEN conjunct2, THEN conjunct1]
  have b: "fst (process_records example_singer ''FULL_TABLE'' ?bf ?last ?last JNull None account_records)
      = account_records"
    by auto
  from a b inc show ?thesis by simp
qed

end
